theory Spec2Isabelle
  imports Main "HOL-Library.Word"
begin

unbundle bit_operations_syntax

section \<open>The environment: files, mappings and paths\<close>

text \<open>
  The track package stores messages in chunk files.  The program reaches a file in two
  ways: through an \<open>os.File\<close> handle (positioned reads and writes of bytes) and through a
  shared memory mapping of the header, which \<open>mmapToIndex\<close> casts to a slice of
  \<open>uint64\<close>.  Both views are views of the same bytes, so a file is modelled as its bytes:
  a length and a byte for every offset.  Bytes past the end read as zero.
\<close>

type_synonym byte = "8 word"
type_synonym u64 = "64 word"

record osfile =
  flen :: nat
  fbytes :: "nat \<Rightarrow> byte"

definition byte_at :: "osfile \<Rightarrow> nat \<Rightarrow> byte" where
  "byte_at f k = (if k < flen f then fbytes f k else 0)"

text \<open>A file of \<open>n\<close> zero bytes: what \<open>Truncate(n)\<close> makes of an empty file.\<close>

definition zero_file :: "nat \<Rightarrow> osfile" where
  "zero_file n = \<lparr>flen = n, fbytes = (\<lambda>_. 0)\<rparr>"

text \<open>
  Writing \<open>d\<close> at offset \<open>p\<close>.  A write past the end leaves a hole that reads as zero; a write
  of no bytes changes nothing.
\<close>

definition pwrite :: "osfile \<Rightarrow> nat \<Rightarrow> byte list \<Rightarrow> osfile" where
  "pwrite f p d =
     (if d = [] then f
      else \<lparr>flen = max (flen f) (p + length d),
            fbytes = (\<lambda>k. if p \<le> k \<and> k < p + length d then d ! (k - p) else byte_at f k)\<rparr>)"

text \<open>Reading up to \<open>n\<close> bytes at offset \<open>p\<close>: the bytes that are there, fewer at the end.\<close>

definition pread :: "osfile \<Rightarrow> nat \<Rightarrow> nat \<Rightarrow> byte list" where
  "pread f p n = map (byte_at f) [p ..< min (p + n) (flen f)]"

text \<open>
  The largest offset of a file is \<open>2^63 - 1\<close> (offsets are \<open>int64\<close>); a write that would pass
  it is refused by the operating system.
\<close>

definition max_offset :: nat where
  "max_offset = 2 ^ 63 - 1"

definition os_Getpagesize :: nat where
  "os_Getpagesize = 4096"

subsection \<open>The mapped header as 64-bit words\<close>

text \<open>
  \<open>mmapToIndex\<close> reinterprets the mapped bytes as \<open>[]uint64\<close> in the byte order of the
  host, which is little-endian on the platforms Go's mmap package supports here.
  Word \<open>j\<close> of the mapping is bytes \<open>8j .. 8j+7\<close> of the file.  The mapping is taken as
  backed throughout: a word that lies past the end of the file reads as zero, and storing
  to it extends the file.
\<close>

definition le_bytes :: "u64 \<Rightarrow> byte list" where
  "le_bytes w = map (\<lambda>i. ucast (drop_bit (8 * i) w)) [0 ..< 8]"

fun le_word :: "byte list \<Rightarrow> u64" where
  "le_word [] = 0"
| "le_word (b # bs) = ucast b OR push_bit 8 (le_word bs)"

definition map_get :: "osfile \<Rightarrow> nat \<Rightarrow> u64" where
  "map_get f j = le_word (map (byte_at f) [8 * j ..< 8 * j + 8])"

definition map_set :: "osfile \<Rightarrow> nat \<Rightarrow> u64 \<Rightarrow> osfile" where
  "map_set f j w = pwrite f (8 * j) (le_bytes w)"

subsection \<open>Paths and the file system\<close>

type_synonym filesys = "string \<rightharpoonup> osfile"

definition os_TempDir :: string where
  "os_TempDir = ''/tmp''"

text \<open>\<open>filepath.Join\<close> on a directory and a name (its path cleaning is not modelled).\<close>

definition filepath_Join :: "string \<Rightarrow> string \<Rightarrow> string" where
  "filepath_Join dir name = dir @ ''/'' @ name"

definition fname :: "string \<Rightarrow> string \<Rightarrow> string" where
  "fname ident root =
     (if root \<noteq> '''' then filepath_Join root ident else filepath_Join os_TempDir ident)"

definition exists_file :: "filesys \<Rightarrow> string \<Rightarrow> bool" where
  "exists_file fs name = (fs name \<noteq> None)"

text \<open>
  \<open>open(path, flags)\<close>: \<open>os.OpenFile\<close>, then a file of length zero is truncated up to one
  page.  With \<open>O_CREATE\<close> a missing file is created; without it \<open>os.OpenFile\<close> fails
  and \<open>utils.Check\<close> panics (\<open>None\<close>).
\<close>

definition open_file :: "filesys \<Rightarrow> string \<Rightarrow> bool \<Rightarrow> filesys option" where
  "open_file fs path create =
     (case fs path of
        None \<Rightarrow> if create then Some (fs(path \<mapsto> zero_file os_Getpagesize)) else None
      | Some f \<Rightarrow> if flen f = 0 then Some (fs(path \<mapsto> zero_file os_Getpagesize)) else Some fs)"


section \<open>Chunks: \<open>file_storage.go\<close>\<close>

text \<open>
  The errors the package returns, named as the specification names them.  In the source
  they are \<open>fmt.Errorf\<close> values: \<open>OutOfOrder\<close> is "Out of order message", \<open>OutOfBounds\<close>
  is "Index out of bounds", \<open>NotWritten\<close> is "Index exceeds available size",
  \<open>BufferTooSmall\<close> is "Message does not fit into available buffer", \<open>Closed\<close> is
  "Track is closed", \<open>EOF\<close> is "EOF", and \<open>IOError\<close> is an error of the os package.
\<close>

datatype error = OutOfOrder | OutOfBounds | NotWritten | BufferTooSmall | Closed | EOF | IOError

text \<open>
  A call returns a value, returns an error, or panics (a run-time panic of Go, or
  \<open>utils.Check\<close> on an error).
\<close>

datatype 'a res = Ok 'a | Err error | Panic

text \<open>
  A method that mutates its receiver returns the state it leaves behind together with its
  error result, or panics.
\<close>

datatype 's run = Returned 's "error option" | Panicked

text \<open>
  \<open>store.index\<close> is a slice of \<open>uint64\<close>.  It is either the window \<open>index[1:]\<close> of the
  mapped header, \<open>Mapped n\<close> with its length \<open>n\<close> (element \<open>i\<close> is word \<open>i + 1\<close> of the
  file), or a slice of its own on the heap.
\<close>

datatype slice = Mapped nat | Heap "u64 list"

text \<open>
  \<open>file_pos\<close> is \<open>store.file\<close>: the position of the writable handle, \<open>None\<close> once it is closed.
\<close>

record FileStorage =
  fileId :: string
  rootPath :: string
  file_pos :: "nat option"
  Capacity :: u64
  Size :: u64
  index :: slice

definition nSize :: u64 where
  "nSize = 8"

definition store_path :: "FileStorage \<Rightarrow> string" where
  "store_path store = fname (fileId store) (rootPath store)"

text \<open>Slice operations of Go: \<open>len\<close>, an indexed load and an indexed store; out of range is
  a panic (\<open>None\<close>).\<close>

definition slice_len :: "slice \<Rightarrow> nat" where
  "slice_len sl = (case sl of Mapped n \<Rightarrow> n | Heap xs \<Rightarrow> length xs)"

definition index_get :: "filesys \<Rightarrow> FileStorage \<Rightarrow> nat \<Rightarrow> u64 option" where
  "index_get fs store i =
     (case index store of
        Mapped n \<Rightarrow>
          (if i < n then
             (case fs (store_path store) of
                Some f \<Rightarrow> Some (map_get f (i + 1))
              | None \<Rightarrow> None)
           else None)
      | Heap xs \<Rightarrow> if i < length xs then Some (xs ! i) else None)"

definition index_set :: "filesys \<Rightarrow> FileStorage \<Rightarrow> nat \<Rightarrow> u64 \<Rightarrow> (filesys \<times> FileStorage) option" where
  "index_set fs store i v =
     (case index store of
        Mapped n \<Rightarrow>
          (if i < n then
             (case fs (store_path store) of
                Some f \<Rightarrow> Some (fs(store_path store \<mapsto> map_set f (i + 1) v), store)
              | None \<Rightarrow> None)
           else None)
      | Heap xs \<Rightarrow>
          if i < length xs then Some (fs, store\<lparr>index := Heap (xs[i := v])\<rparr>) else None)"

text \<open>
  \<open>mmap.MapRegion(file, length, RDWR, 0, 0)\<close> followed by \<open>mmapToIndex(mem, 0, sz)\<close>:
  the number of \<open>uint64\<close> words of the resulting slice, or \<open>None\<close> for a panic.  A
  negative \<open>length\<close> maps the whole file, a \<open>length\<close> of zero is refused by the system
  call, and \<open>mmapToIndex\<close> slices \<open>data[0 : sz]\<close>, which panics beyond the mapping.
\<close>

definition mapped_words :: "osfile \<Rightarrow> u64 \<Rightarrow> nat option" where
  "mapped_words f sz =
     (let len = (if sint sz < 0 then flen f else unat sz) in
      if len = 0 then None
      else if len < unat sz then None
      else Some (unat sz div unat nSize))"

text \<open>
  \<open>init\<close> (lines 101-115).  \<open>utils.Check\<close> panics when the mapping fails and when
  \<open>Seek\<close> is given a negative \<open>int64\<close>.
\<close>

definition init :: "filesys \<Rightarrow> FileStorage \<Rightarrow> (filesys \<times> FileStorage) res" where
  "init fs store =
     (let headerSize = (Capacity store + 2) * nSize;
          path = store_path store in
      case open_file fs path True of
        None \<Rightarrow> Panic
      | Some fs1 \<Rightarrow>
          (case fs1 path of
             None \<Rightarrow> Panic
           | Some f1 \<Rightarrow>
               (case mapped_words f1 headerSize of
                  None \<Rightarrow> Panic
                | Some n \<Rightarrow>
                    if n < 1 then Panic
                    else
                      let fs2 = fs1(path \<mapsto> map_set f1 0 (Capacity store));
                          store2 = store\<lparr>index := Mapped (n - 1)\<rparr>
                      in (case index_set fs2 store2 0 headerSize of
                            None \<Rightarrow> Panic
                          | Some (fs3, store3) \<Rightarrow>
                              if sint headerSize < 0 then Panic
                              else Ok (fs3, store3\<lparr>file_pos := Some (unat headerSize)\<rparr>)))))"

text \<open>\<open>NewFileStorage\<close> (lines 49-57).\<close>

definition NewFileStorage :: "filesys \<Rightarrow> string \<Rightarrow> string \<Rightarrow> u64 \<Rightarrow> (filesys \<times> FileStorage) res" where
  "NewFileStorage fs root ident capacity =
     init fs \<lparr>fileId = ident, rootPath = root, file_pos = None, Capacity = capacity, Size = 0,
               index = Heap []\<rparr>"

text \<open>
  \<open>store.file.Write(data)\<close>: the bytes go to the file at the position of the handle, which
  moves on.  It fails (\<open>None\<close>) on a closed handle and when the write would pass the
  largest offset.
\<close>

definition file_Write :: "filesys \<Rightarrow> FileStorage \<Rightarrow> byte list \<Rightarrow> (filesys \<times> FileStorage) option" where
  "file_Write fs store data =
     (case file_pos store of
        None \<Rightarrow> None
      | Some pos \<Rightarrow>
          (case fs (store_path store) of
             None \<Rightarrow> None
           | Some f \<Rightarrow>
               if pos + length data > max_offset then None
               else Some (fs(store_path store \<mapsto> pwrite f pos data),
                          store\<lparr>file_pos := Some (pos + length data)\<rparr>)))"

text \<open>
  \<open>WriteMessage\<close> (lines 118-131).  \<open>idx\<close> is the \<open>int\<close> argument as its 64 bits:
  \<open>uint64(index)\<close> is \<open>idx\<close> itself and \<open>index < 0\<close> is \<open>sint idx < 0\<close>.
\<close>

definition WriteMessage ::
  "filesys \<Rightarrow> FileStorage \<Rightarrow> u64 \<Rightarrow> byte list \<Rightarrow> (filesys \<times> FileStorage) run" where
  "WriteMessage fs store idx data =
     (if idx \<noteq> Size store then Returned (fs, store) (Some OutOfOrder)
      else if sint idx < 0 \<or> idx \<ge> Capacity store then Returned (fs, store) (Some OutOfBounds)
      else
        case file_Write fs store data of
          None \<Rightarrow> Returned (fs, store) (Some IOError)
        | Some (fs1, store1) \<Rightarrow>
            (case index_get fs1 store1 (unat idx) of
               None \<Rightarrow> Panicked
             | Some bottom_off \<Rightarrow>
                 (case index_set fs1 store1 (unat idx + 1) (bottom_off + of_nat (length data)) of
                    None \<Rightarrow> Panicked
                  | Some (fs2, store2) \<Rightarrow>
                      Returned (fs2, store2\<lparr>Size := Size store2 + 1\<rparr>) None)))"

text \<open>
  A reader handle from \<open>os.Open\<close>: the path it was opened on and its position.
  \<open>Read\<close> on it returns the bytes that are in the file at that time.
\<close>

record handle =
  hpath :: string
  hpos :: nat

text \<open>
  \<open>r.Read(buf)\<close> for a buffer of \<open>n\<close> bytes: the bytes read and the handle moved on, or
  the error \<open>io.EOF\<close> when \<open>n > 0\<close> and no byte is left.
\<close>

definition handle_Read :: "filesys \<Rightarrow> handle \<Rightarrow> nat \<Rightarrow> (byte list \<times> handle) res" where
  "handle_Read fs h n =
     (case fs (hpath h) of
        None \<Rightarrow> Err IOError
      | Some f \<Rightarrow>
          let bs = pread f (hpos h) n in
          if bs = [] \<and> 0 < n then Err EOF
          else Ok (bs, h\<lparr>hpos := hpos h + length bs\<rparr>))"

text \<open>\<open>ReaderAt\<close> (lines 134-150).  \<open>Seek\<close> fails on a negative \<open>int64\<close> offset.\<close>

definition ReaderAt :: "filesys \<Rightarrow> FileStorage \<Rightarrow> u64 \<Rightarrow> handle res" where
  "ReaderAt fs store messageIndex =
     (if messageIndex \<ge> Size store then Err NotWritten
      else if messageIndex \<ge> Capacity store then Err OutOfBounds
      else
        case fs (store_path store) of
          None \<Rightarrow> Err IOError
        | Some f \<Rightarrow>
            (case index_get fs store (unat messageIndex) of
               None \<Rightarrow> Panic
             | Some off \<Rightarrow>
                 if sint off < 0 then Err IOError
                 else Ok \<lparr>hpath = store_path store, hpos = unat off\<rparr>))"

text \<open>\<open>SizeOf\<close> (lines 153-165).\<close>

definition SizeOf :: "filesys \<Rightarrow> FileStorage \<Rightarrow> u64 \<Rightarrow> u64 res" where
  "SizeOf fs store messageIndex =
     (if messageIndex \<ge> Size store then Err NotWritten
      else if messageIndex \<ge> Capacity store then Err OutOfBounds
      else
        case index_get fs store (unat messageIndex + 1) of
          None \<Rightarrow> Panic
        | Some top_off \<Rightarrow>
            (case index_get fs store (unat messageIndex) of
               None \<Rightarrow> Panic
             | Some bottom_off \<Rightarrow> Ok (top_off - bottom_off)))"

definition IsFull :: "FileStorage \<Rightarrow> bool" where
  "IsFull store = (Size store = Capacity store)"


text \<open>
  \<open>Flush\<close> (lines 172-175) and \<open>Close\<close> (lines 181-185).  The mapping is shared, so what
  was stored through it is in the file already; flushing and unmapping change no byte.
  After \<open>Close\<close> the store is not used again, and only the file system is left.
\<close>

definition Flush :: "filesys \<Rightarrow> FileStorage \<Rightarrow> filesys \<times> FileStorage" where
  "Flush fs store = (fs, store)"

definition Close :: "filesys \<Rightarrow> FileStorage \<Rightarrow> filesys" where
  "Close fs store = fs"

text \<open>
  The built-ins \<open>make([]uint64, len, cap)\<close> and \<open>copy(dst, src)\<close>: \<open>copy\<close> overwrites
  the first \<open>min (len dst) (len src)\<close> elements of \<open>dst\<close>.  The capacity of a slice does
  not matter to indexing, which is checked against its length.
\<close>

definition go_make :: "nat \<Rightarrow> nat \<Rightarrow> u64 list" where
  "go_make len cap = replicate len 0"

definition go_copy :: "u64 list \<Rightarrow> u64 list \<Rightarrow> u64 list" where
  "go_copy dst src = take (length dst) src @ drop (length src) dst"

definition index_elems :: "filesys \<Rightarrow> FileStorage \<Rightarrow> u64 list" where
  "index_elems fs store =
     (case index store of
        Mapped n \<Rightarrow>
          (case fs (store_path store) of
             Some f \<Rightarrow> map (\<lambda>i. map_get f (i + 1)) [0 ..< n]
           | None \<Rightarrow> [])
      | Heap xs \<Rightarrow> xs)"

text \<open>\<open>switchToReadOnly\<close> (lines 189-195).\<close>

definition switchToReadOnly :: "filesys \<Rightarrow> FileStorage \<Rightarrow> FileStorage" where
  "switchToReadOnly fs store =
     (let idx = go_make 0 (unat (Capacity store));
          idx' = go_copy idx (index_elems fs store)
      in store\<lparr>index := Heap idx', file_pos := None\<rparr>)"

text \<open>
  The loop of \<open>Open\<close> that looks for the end of the written index (lines 82-88):
  \<open>for i, offset := range index\<close> over the \<open>n\<close> words of the header, from word \<open>i\<close> on.
  \<open>uint64(i - 2)\<close> is computed on the \<open>int\<close> \<open>i\<close> and then converted.
\<close>

function scan_index :: "osfile \<Rightarrow> nat \<Rightarrow> nat \<Rightarrow> u64 \<Rightarrow> u64" where
  "scan_index f i n sz =
     (if i < n then
        (if map_get f i = 0 then word_of_int (int i - 2)
         else scan_index f (i + 1) n sz)
      else sz)"
  by pat_completeness auto
termination
  by (relation "measure (\<lambda>(f, i, n, sz). n - i)") auto

declare scan_index.simps [simp del]

text \<open>\<open>Open\<close> (lines 60-98).\<close>

definition Open :: "filesys \<Rightarrow> string \<Rightarrow> string \<Rightarrow> (filesys \<times> FileStorage) res" where
  "Open fs root ident =
     (let store = \<lparr>fileId = ident, rootPath = root, file_pos = None, Capacity = 0, Size = 0,
                   index = Heap []\<rparr>;
          path = store_path store in
      case open_file fs path False of
        None \<Rightarrow> Panic
      | Some fs1 \<Rightarrow>
          (case fs1 path of
             None \<Rightarrow> Panic
           | Some f \<Rightarrow>
               (case mapped_words f nSize of
                  None \<Rightarrow> Panic
                | Some c \<Rightarrow>
                    if c < 1 then Panic
                    else
                      let store1 = store\<lparr>file_pos := Some 0, Capacity := map_get f 0\<rparr>;
                          headerSize = (Capacity store1 + 2) * nSize
                      in (case mapped_words f headerSize of
                            None \<Rightarrow> Panic
                          | Some n \<Rightarrow>
                              if n < 1 then Panic
                              else
                                let store2 = store1\<lparr>index := Mapped (n - 1)\<rparr>;
                                    store3 = store2\<lparr>Size := scan_index f 0 n (Size store2)\<rparr>
                                in if Size store3 = 0
                                   then Ok (fs1, store3\<lparr>Size := Capacity store3\<rparr>)
                                   else
                                     (case index_get fs1 store3 (unat (Size store3)) of
                                        None \<Rightarrow> Panic
                                      | Some off \<Rightarrow>
                                          if sint off < 0 then Panic
                                          else Ok (fs1, store3\<lparr>file_pos := Some (unat off)\<rparr>))))))"


section \<open>Tracks: \<open>storage.go\<close>\<close>

text \<open>
  This is the draft of \<open>storage.go\<close> that has \<open>OpenTrack\<close> by enumeration of the chunk
  files, \<open>WaitForShutdown\<close>, the read-only transition in the writer and the buffer check
  in \<open>Read\<close>.

  \<open>CHUNK_SIZE\<close> is a package variable; it is the first argument of every function that
  reads it.  A division by it panics when it is zero.

  The writer goroutine is modelled by what it does to the messages of the queue, in the
  order of the queue: \<open>writeChan\<close> is the list of the messages sent and not yet received,
  \<open>chanClosed\<close> tells whether \<open>close(t.writeChan)\<close> has run, and \<open>msgId\<close> is the local
  variable of the goroutine.  The capacity of the channel only decides when a sender
  waits; it is not modelled.
\<close>

record Track =
  stores :: "FileStorage list"
  TrackId :: string
  RootPath :: string
  writeChan :: "byte list list"
  chanClosed :: bool
  alive :: bool
  msgId :: u64

text \<open>\<open>fmt.Sprintf("%d", n)\<close>: the decimal digits of \<open>n\<close>.\<close>

function decimal :: "nat \<Rightarrow> string" where
  "decimal n =
     (if n < 10 then [char_of (48 + n)]
      else decimal (n div 10) @ [char_of (48 + n mod 10)])"
  by pat_completeness auto
termination
  by (relation "measure (\<lambda>n. n)") auto

declare decimal.simps [simp del]

definition storeId_of :: "string \<Rightarrow> nat \<Rightarrow> string" where
  "storeId_of ident k = ident @ decimal k"

text \<open>\<open>startWriter\<close> (lines 104-107): a new channel and the goroutine's \<open>msgId\<close>.\<close>

definition startWriter :: "Track \<Rightarrow> u64 \<Rightarrow> Track" where
  "startWriter t startId = t\<lparr>writeChan := [], chanClosed := False, msgId := startId\<rparr>"

text \<open>\<open>NewTrack\<close> (lines 29-39).\<close>

definition NewTrack :: "string \<Rightarrow> string \<Rightarrow> Track" where
  "NewTrack root ident =
     startWriter \<lparr>stores = [], TrackId = ident, RootPath = root, writeChan = [],
                  chanClosed = False, alive = True, msgId = 0\<rparr> 0"

text \<open>
  \<open>Track.WriteMessage\<close> (lines 65-73): a send on the channel; on a closed channel the send
  panics and the deferred function turns the panic into an error.
\<close>

definition Track_WriteMessage :: "Track \<Rightarrow> byte list \<Rightarrow> Track \<times> error option" where
  "Track_WriteMessage t data =
     (if chanClosed t then (t, Some Closed)
      else (t\<lparr>writeChan := writeChan t @ [data]\<rparr>, None))"

text \<open>\<open>Track.Close\<close> (lines 94-96); closing a closed channel panics.\<close>

definition Track_Close :: "Track \<Rightarrow> Track res" where
  "Track_Close t = (if chanClosed t then Panic else Ok (t\<lparr>chanClosed := True\<rparr>))"

text \<open>
  One turn of the writer's loop for a received message \<open>msg\<close> (lines 114-128).
  \<open>utils.Check(err)\<close> panics on every error of \<open>WriteMessage\<close>.
\<close>

definition writer_receive :: "u64 \<Rightarrow> filesys \<Rightarrow> Track \<Rightarrow> byte list \<Rightarrow> (filesys \<times> Track) res" where
  "writer_receive CHUNK_SIZE fs t msg =
     (if CHUNK_SIZE = 0 then Panic
      else
        let chunkId = msgId t div CHUNK_SIZE;
            r1 = (if chunkId = of_nat (length (stores t)) then
                    let ss = (if chunkId > 0
                              then (stores t)[unat (chunkId - 1) :=
                                      switchToReadOnly fs (stores t ! unat (chunkId - 1))]
                              else stores t)
                    in (case NewFileStorage fs (RootPath t)
                               (storeId_of (TrackId t) (unat chunkId)) CHUNK_SIZE of
                          Ok (fs1, st) \<Rightarrow> Ok (fs1, t\<lparr>stores := ss @ [st]\<rparr>)
                        | Err e \<Rightarrow> Err e
                        | Panic \<Rightarrow> Panic)
                  else Ok (fs, t))
        in case r1 of
             Ok (fs1, t1) \<Rightarrow>
               let internalMsgId = msgId t mod CHUNK_SIZE in
               if unat chunkId \<ge> length (stores t1) then Panic
               else
                 (case WriteMessage fs1 (stores t1 ! unat chunkId) internalMsgId msg of
                    Returned (fs2, st2) None \<Rightarrow>
                      Ok (fs2, t1\<lparr>stores := (stores t1)[unat chunkId := st2],
                                   msgId := msgId t + 1\<rparr>)
                  | Returned (fs2, st2) (Some e) \<Rightarrow> Panic
                  | Panicked \<Rightarrow> Panic)
           | Err e \<Rightarrow> Err e
           | Panic \<Rightarrow> Panic)"

text \<open>The writer receives the messages of the queue one after the other.\<close>

fun writer_drain :: "u64 \<Rightarrow> filesys \<Rightarrow> Track \<Rightarrow> byte list list \<Rightarrow> (filesys \<times> Track) res" where
  "writer_drain CHUNK_SIZE fs t [] = Ok (fs, t\<lparr>writeChan := []\<rparr>)"
| "writer_drain CHUNK_SIZE fs t (msg # msgs) =
     (case writer_receive CHUNK_SIZE fs (t\<lparr>writeChan := msgs\<rparr>) msg of
        Ok (fs1, t1) \<Rightarrow> writer_drain CHUNK_SIZE fs1 t1 msgs
      | Err e \<Rightarrow> Err e
      | Panic \<Rightarrow> Panic)"

text \<open>
  The writer runs until the queue is empty; when the channel is closed as well, the receive
  reports \<open>more = false\<close> and the goroutine clears \<open>alive\<close> and returns (lines 109-113).
\<close>

definition writer_run :: "u64 \<Rightarrow> filesys \<Rightarrow> Track \<Rightarrow> (filesys \<times> Track) res" where
  "writer_run CHUNK_SIZE fs t =
     (case writer_drain CHUNK_SIZE fs t (writeChan t) of
        Ok (fs1, t1) \<Rightarrow> Ok (fs1, if chanClosed t1 then t1\<lparr>alive := False\<rparr> else t1)
      | Err e \<Rightarrow> Err e
      | Panic \<Rightarrow> Panic)"

text \<open>
  \<open>WaitForShutdown\<close> (lines 98-102) polls \<open>alive\<close>, which only the writer clears, and only
  after \<open>Close\<close>.  On a track that is alive and not closed it never returns (\<open>None\<close>).
\<close>

definition WaitForShutdown :: "u64 \<Rightarrow> filesys \<Rightarrow> Track \<Rightarrow> (filesys \<times> Track) res option" where
  "WaitForShutdown CHUNK_SIZE fs t =
     (if \<not> alive t then Some (Ok (fs, t))
      else if \<not> chanClosed t then None
      else Some (writer_run CHUNK_SIZE fs t))"

text \<open>
  The loop of \<open>OpenTrack\<close> that finds and loads the stores (lines 50-56), from file
  number \<open>i\<close> on.  It ends at the first number without a file.
\<close>

partial_function (option) load_stores ::
  "filesys \<Rightarrow> string \<Rightarrow> string \<Rightarrow> nat \<Rightarrow> FileStorage list \<Rightarrow> (filesys \<times> FileStorage list) res option" where
  "load_stores fs root ident i acc =
     (if \<not> exists_file fs (fname (storeId_of ident i) root) then Some (Ok (fs, acc))
      else
        (case Open fs root (storeId_of ident i) of
           Ok (fs1, st) \<Rightarrow> load_stores fs1 root ident (i + 1) (acc @ [st])
         | Err e \<Rightarrow> Some (Err e)
         | Panic \<Rightarrow> Some Panic))"

declare load_stores.simps [code]

text \<open>\<open>OpenTrack\<close> (lines 41-63).\<close>

definition OpenTrack :: "u64 \<Rightarrow> filesys \<Rightarrow> string \<Rightarrow> string \<Rightarrow> (filesys \<times> Track) res option" where
  "OpenTrack CHUNK_SIZE fs root ident =
     (case load_stores fs root ident 0 [] of
        None \<Rightarrow> None
      | Some (Ok (fs1, ss)) \<Rightarrow>
          let t = \<lparr>stores = ss, TrackId = ident, RootPath = root, writeChan = [],
                   chanClosed = False, alive = True, msgId = 0\<rparr>;
              nextId = (if length ss > 0
                        then of_nat (length ss) * CHUNK_SIZE + Size (ss ! (length ss - 1))
                        else 0)
          in Some (Ok (fs1, startWriter t nextId))
      | Some (Err e) \<Rightarrow> Some (Err e)
      | Some Panic \<Rightarrow> Some Panic)"

subsection \<open>Readers\<close>

record StorageReader =
  Offset :: u64
  currentSub :: "handle option"

text \<open>\<open>Track.ReaderAt\<close> (lines 75-92).\<close>

definition Track_ReaderAt :: "u64 \<Rightarrow> filesys \<Rightarrow> Track \<Rightarrow> u64 \<Rightarrow> StorageReader res" where
  "Track_ReaderAt CHUNK_SIZE fs t offset =
     (if offset < 0 then Err OutOfBounds
      else
        let r = \<lparr>Offset = offset, currentSub = None\<rparr> in
        if CHUNK_SIZE = 0 then Panic
        else
          let chunkIndex = offset div CHUNK_SIZE;
              msgIndex = offset mod CHUNK_SIZE
          in if chunkIndex < of_nat (length (stores t))
                \<and> msgIndex < Size (stores t ! unat chunkIndex)
             then (case ReaderAt fs (stores t ! unat chunkIndex) msgIndex of
                     Ok h \<Rightarrow> Ok (r\<lparr>currentSub := Some h\<rparr>)
                   | Err e \<Rightarrow> Panic
                   | Panic \<Rightarrow> Panic)
             else Ok r)"

text \<open>
  \<open>handleRollover\<close> (lines 185-204).  \<open>sr.currentSub.Close()\<close> on a nil \<open>currentSub\<close>
  is a nil dereference.
\<close>

definition handleRollover :: "u64 \<Rightarrow> filesys \<Rightarrow> Track \<Rightarrow> StorageReader \<Rightarrow> StorageReader res" where
  "handleRollover CHUNK_SIZE fs t sr =
     (if CHUNK_SIZE = 0 then Panic
      else
        let didRollOver = (Offset sr mod CHUNK_SIZE = 0) in
        if didRollOver then
          (if Offset sr div CHUNK_SIZE < of_nat (length (stores t)) then
             (case ReaderAt fs (stores t ! unat (Offset sr div CHUNK_SIZE)) 0 of
                Ok h \<Rightarrow> Ok (sr\<lparr>currentSub := Some h\<rparr>)
              | Err e \<Rightarrow> Ok (sr\<lparr>currentSub := None\<rparr>)
              | Panic \<Rightarrow> Panic)
           else
             (case currentSub sr of
                None \<Rightarrow> Panic
              | Some h \<Rightarrow> Ok (sr\<lparr>currentSub := None\<rparr>)))
        else Ok sr)"

text \<open>
  \<open>StorageReader.Read\<close> (lines 142-176) on a buffer \<open>p\<close>.  It returns \<open>n\<close>, the error, the
  buffer as the call leaves it and the reader; or it waits on \<open>dataCond\<close> for the writer
  (\<open>ReadWaits\<close>); or it panics.
\<close>

datatype read_outcome =
    ReadReturns int "error option" "byte list" StorageReader
  | ReadWaits
  | ReadPanics

definition StorageReader_Read ::
  "u64 \<Rightarrow> filesys \<Rightarrow> Track \<Rightarrow> StorageReader \<Rightarrow> byte list \<Rightarrow> read_outcome" where
  "StorageReader_Read CHUNK_SIZE fs t sr p =
     (if \<not> alive t then ReadReturns (- 1) (Some EOF) p sr
      else if CHUNK_SIZE = 0 then ReadPanics
      else
        let chunkId = Offset sr div CHUNK_SIZE;
            internalMsgId = Offset sr mod CHUNK_SIZE
        in if currentSub sr = None
              \<or> chunkId \<ge> of_nat (length (stores t))
              \<or> internalMsgId \<ge> Size (stores t ! unat chunkId)
           then ReadWaits
           else
             (case SizeOf fs (stores t ! unat chunkId) internalMsgId of
                Panic \<Rightarrow> ReadPanics
              | Err e \<Rightarrow> ReadReturns 0 (Some e) p sr
              | Ok nextMsgSize \<Rightarrow>
                  if nextMsgSize > of_nat (length p)
                  then ReadReturns 0 (Some BufferTooSmall) p sr
                  else
                    (case currentSub sr of
                       None \<Rightarrow> ReadPanics
                     | Some h \<Rightarrow>
                         (case handle_Read fs h (unat nextMsgSize) of
                            Ok (bs, h') \<Rightarrow>
                              let sr1 = sr\<lparr>currentSub := Some h', Offset := Offset sr + 1\<rparr>
                              in (case handleRollover CHUNK_SIZE fs t sr1 of
                                    Ok sr2 \<Rightarrow>
                                      ReadReturns (sint nextMsgSize) None
                                        (bs @ drop (length bs) p) sr2
                                  | Err e \<Rightarrow> ReadPanics
                                  | Panic \<Rightarrow> ReadPanics)
                          | Err e \<Rightarrow> ReadPanics
                          | Panic \<Rightarrow> ReadPanics))))"

section \<open>Vocabulary of the properties\<close>

text \<open>
  A sequence of calls \<open>WriteMessage(idx, data)\<close> on a chunk, every one of which returns
  without an error; \<open>None\<close> as soon as one returns an error or panics.
\<close>

fun writes :: "filesys \<Rightarrow> FileStorage \<Rightarrow> (u64 \<times> byte list) list \<Rightarrow> (filesys \<times> FileStorage) option" where
  "writes fs store [] = Some (fs, store)"
| "writes fs store ((idx, data) # calls) =
     (case WriteMessage fs store idx data of
        Returned (fs1, store1) None \<Rightarrow> writes fs1 store1 calls
      | Returned (fs1, store1) (Some e) \<Rightarrow> None
      | Panicked \<Rightarrow> None)"

text \<open>The number of payload bytes of a list of messages.\<close>

definition total :: "byte list list \<Rightarrow> nat" where
  "total ds = sum_list (map length ds)"

text \<open>\<open>headerSize\<close>, as \<open>init\<close> and \<open>Open\<close> compute it in \<open>uint64\<close>.\<close>

definition header_of :: "u64 \<Rightarrow> u64" where
  "header_of capacity = (capacity + 2) * nSize"

text \<open>
  The state of a chunk that holds the messages \<open>ds\<close>: the header is mapped with \<open>n\<close>
  offsets after the capacity word, entry \<open>i\<close> of the offset table is \<open>H\<close> plus the
  lengths of the first \<open>i\<close> messages, the handle stands behind the last message (at an
  offset that a file can have), the file is not empty, and every message is in the file
  where its offset says.
\<close>

definition chunk_inv :: "u64 \<Rightarrow> nat \<Rightarrow> byte list list \<Rightarrow> filesys \<Rightarrow> FileStorage \<Rightarrow> bool" where
  "chunk_inv H n ds fs s \<longleftrightarrow>
     index s = Mapped n \<and> unat H = 8 * n + 8 \<and> length ds < n \<and>
     Size s = of_nat (length ds) \<and> length ds \<le> unat (Capacity s) \<and>
     file_pos s = Some (unat H + total ds) \<and>
     unat H + total ds \<le> max_offset \<and>
     (\<exists>f. fs (store_path s) = Some f \<and> 0 < flen f \<and>
          map_get f 0 = Capacity s \<and>
          (\<forall>i \<le> length ds. map_get f (i + 1) = H + of_nat (total (take i ds))) \<and>
          (\<forall>i < length ds. pread f (unat H + total (take i ds)) (length (ds ! i)) = ds ! i) \<and>
          (0 < total ds \<longrightarrow> unat H + total ds \<le> flen f))"


text \<open>
  The entries of the mapped header after word \<open>k + 1\<close>, up to word \<open>n\<close>, are zero: the part
  of the offset table that no message has reached.
\<close>

definition tail_zero :: "nat \<Rightarrow> nat \<Rightarrow> filesys \<Rightarrow> FileStorage \<Rightarrow> bool" where
  "tail_zero n k fs s \<longleftrightarrow>
     (case fs (store_path s) of
        None \<Rightarrow> False
      | Some f \<Rightarrow> list_all (\<lambda>j. map_get f j = 0) [k + 2 ..< n + 1])"

text \<open>
  What \<open>WriteMessage\<close> needs from a chunk beyond its two checks: the writable handle is
  open on a file that is there, the operating system takes the write (it ends at or
  below the largest offset), and the offset table has the entry after \<open>Size\<close>.
\<close>

definition chunk_writable :: "filesys \<Rightarrow> FileStorage \<Rightarrow> byte list \<Rightarrow> bool" where
  "chunk_writable fs s data =
     (case file_pos s of
        None \<Rightarrow> False
      | Some pos \<Rightarrow>
          (case fs (store_path s) of
             None \<Rightarrow> False
           | Some f \<Rightarrow>
               pos + length data \<le> max_offset \<and> unat (Size s) + 1 < slice_len (index s)))"

text \<open>The calls \<open>t.WriteMessage(m)\<close> for the messages of a list, in order.\<close>

fun send_all :: "Track \<Rightarrow> byte list list \<Rightarrow> Track" where
  "send_all t [] = t"
| "send_all t (m # ms) = send_all (fst (Track_WriteMessage t m)) ms"

section \<open>Lemmas about files\<close>

lemma take_bit_split:
  "take_bit (a + b) (x :: u64) = take_bit a x OR push_bit a (take_bit b (drop_bit a x))"
  by (rule bit_word_eqI) (auto simp add: bit_simps)

lemma ucast_byte: "(ucast (ucast (x :: u64) :: byte) :: u64) = take_bit 8 x"
  by (rule bit_word_eqI) (auto simp add: bit_simps)

lemma le_word_slices:
  "le_word (map (\<lambda>i. ucast (drop_bit (8 * i) w)) [k ..< k + n]) = take_bit (8 * n) (drop_bit (8 * k) w)"
proof (induction n arbitrary: k)
  case 0
  show ?case by simp
next
  case (Suc n)
  have "[k ..< k + Suc n] = k # [Suc k ..< Suc k + n]"
    by (simp add: upt_rec)
  then have "le_word (map (\<lambda>i. ucast (drop_bit (8 * i) w)) [k ..< k + Suc n])
      = take_bit 8 (drop_bit (8 * k) w) OR push_bit 8 (take_bit (8 * n) (drop_bit (8 * Suc k) w))"
    using Suc.IH [of "Suc k"] by (simp add: ucast_byte)
  also have "drop_bit (8 * Suc k) w = drop_bit 8 (drop_bit (8 * k) w)"
    by (simp add: drop_bit_drop_bit add.commute)
  also have "take_bit 8 (drop_bit (8 * k) w) OR push_bit 8 (take_bit (8 * n) (drop_bit 8 (drop_bit (8 * k) w)))
      = take_bit (8 + 8 * n) (drop_bit (8 * k) w)"
    by (rule take_bit_split [symmetric])
  finally show ?case by simp
qed

lemma le_word_le_bytes: "le_word (le_bytes w) = w"
  using le_word_slices [of w 0 8] by (simp add: le_bytes_def take_bit_word_eq_self)

lemma length_le_bytes: "length (le_bytes w) = 8"
  by (simp add: le_bytes_def)

lemma le_bytes_not_Nil: "le_bytes w \<noteq> []"
  using length_le_bytes [of w] by auto

lemma le_word_zeros: "le_word (map (\<lambda>_. 0) xs) = 0"
  by (induction xs) simp_all

lemma byte_at_zero_file: "byte_at (zero_file n) k = 0"
  by (simp add: byte_at_def zero_file_def)

lemma flen_zero_file: "flen (zero_file n) = n"
  by (simp add: zero_file_def)

lemma byte_at_pwrite:
  "byte_at (pwrite f p d) k = (if p \<le> k \<and> k < p + length d then d ! (k - p) else byte_at f k)"
  by (auto simp add: pwrite_def byte_at_def)

lemma flen_pwrite:
  "flen (pwrite f p d) = (if d = [] then flen f else max (flen f) (p + length d))"
  by (simp add: pwrite_def)

lemma flen_pwrite_ge: "flen f \<le> flen (pwrite f p d)"
  by (simp add: flen_pwrite)

lemma map_get_zero_file: "map_get (zero_file n) j = 0"
  by (simp add: map_get_def byte_at_zero_file [abs_def] le_word_zeros)

lemma map_get_cong:
  assumes "\<And>k. 8 * j \<le> k \<Longrightarrow> k < 8 * j + 8 \<Longrightarrow> byte_at f k = byte_at g k"
  shows "map_get f j = map_get g j"
proof -
  have "map (byte_at f) [8 * j ..< 8 * j + 8] = map (byte_at g) [8 * j ..< 8 * j + 8]"
    by (rule map_cong [OF refl]) (simp add: assms)
  then show ?thesis by (simp only: map_get_def)
qed

lemma map_get_pwrite_other:
  assumes "p + length d \<le> 8 * j \<or> 8 * j + 8 \<le> p"
  shows "map_get (pwrite f p d) j = map_get f j"
  by (rule map_get_cong) (use assms in \<open>auto simp add: byte_at_pwrite\<close>)

lemma map_get_map_set_same: "map_get (map_set f j w) j = w"
proof -
  have "map (byte_at (map_set f j w)) [8 * j ..< 8 * j + 8] = le_bytes w"
    by (rule nth_equalityI) (simp_all add: length_le_bytes map_set_def byte_at_pwrite)
  then show ?thesis
    by (simp only: map_get_def le_word_le_bytes)
qed

lemma map_get_map_set_other: "j' \<noteq> j \<Longrightarrow> map_get (map_set f j w) j' = map_get f j'"
  unfolding map_set_def
  by (rule map_get_pwrite_other) (simp add: length_le_bytes, arith)

lemma map_get_map_set: "map_get (map_set f j w) j' = (if j' = j then w else map_get f j')"
  by (simp add: map_get_map_set_same map_get_map_set_other)

lemma flen_map_set: "flen (map_set f j w) = max (flen f) (8 * j + 8)"
  by (simp add: map_set_def flen_pwrite le_bytes_not_Nil length_le_bytes)

lemma pread_zero: "pread f p 0 = []"
  by (simp add: pread_def)

lemma pread_pwrite_same: "pread (pwrite f p d) p (length d) = d"
proof (cases "d = []")
  case True
  then show ?thesis by (simp add: pread_def)
next
  case False
  then have "min (p + length d) (flen (pwrite f p d)) = p + length d"
    by (simp add: flen_pwrite)
  then have "pread (pwrite f p d) p (length d) = map (byte_at (pwrite f p d)) [p ..< p + length d]"
    by (simp add: pread_def)
  also have "\<dots> = d"
    by (rule nth_equalityI) (simp_all add: byte_at_pwrite)
  finally show ?thesis .
qed

lemma pread_pwrite_other:
  assumes "q + n \<le> flen f" and "q + n \<le> p \<or> p + length d \<le> q"
  shows "pread (pwrite f p d) q n = pread f q n"
proof -
  have "min (q + n) (flen (pwrite f p d)) = q + n" "min (q + n) (flen f) = q + n"
    using assms(1) flen_pwrite_ge [of f p d] by simp_all
  moreover have "map (byte_at (pwrite f p d)) [q ..< q + n] = map (byte_at f) [q ..< q + n]"
    by (rule map_cong [OF refl]) (use assms(2) in \<open>auto simp add: byte_at_pwrite\<close>)
  ultimately show ?thesis by (simp add: pread_def)
qed

lemma pread_map_set_other:
  assumes "q + n \<le> flen f" and "8 * j + 8 \<le> q"
  shows "pread (map_set f j w) q n = pread f q n"
  unfolding map_set_def
  by (rule pread_pwrite_other) (use assms in \<open>simp_all add: length_le_bytes\<close>)

section \<open>Lemmas about chunks\<close>

lemma store_path_update [simp]:
  "store_path (s\<lparr>file_pos := a\<rparr>) = store_path s"
  "store_path (s\<lparr>Size := b\<rparr>) = store_path s"
  "store_path (s\<lparr>index := c\<rparr>) = store_path s"
  by (simp_all add: store_path_def)

lemma WriteMessage_success:
  assumes "index s = Mapped n" and "fs (store_path s) = Some f" and "file_pos s = Some pos"
    and "WriteMessage fs s idx d = Returned (fs', s') None"
  shows "idx = Size s" and "idx < Capacity s" and "pos + length d \<le> max_offset"
    and "unat idx + 1 < n"
    and "fs' = fs(store_path s \<mapsto>
             map_set (pwrite f pos d) (unat idx + 2)
               (map_get (pwrite f pos d) (unat idx + 1) + of_nat (length d)))"
    and "s' = s\<lparr>file_pos := Some (pos + length d), Size := Size s + 1\<rparr>"
  using assms
  by (auto simp add: WriteMessage_def file_Write_def index_get_def index_set_def not_le
      split: if_splits option.splits)

lemma total_append: "total (xs @ ys) = total xs + total ys"
  by (simp add: total_def)

lemma total_take_Suc: "i < length ds \<Longrightarrow> total (take (Suc i) ds) = total (take i ds) + length (ds ! i)"
  by (simp add: take_Suc_conv_app_nth total_def)

lemma total_take_le: "total (take i ds) \<le> total ds"
proof -
  have "total ds = total (take i ds @ drop i ds)" by simp
  then show ?thesis unfolding total_append by linarith
qed

lemma unat_of_nat64: "k < 2 ^ 64 \<Longrightarrow> unat (of_nat k :: u64) = k"
  by (simp add: unat_of_nat)

lemma uint_lt_63: "unat (w :: u64) < 2 ^ 63 \<Longrightarrow> uint w < 2 ^ 63"
  by transfer simp

lemma sint_nonneg64:
  assumes "unat (w :: u64) < 2 ^ 63"
  shows "\<not> sint w < 0"
proof -
  have lo: "- (2 ^ 63) \<le> uint w"
    by (rule order_trans [of _ 0]) simp_all
  have hi: "uint w < 2 ^ 63"
    by (rule uint_lt_63 [OF assms])
  have "sint w = signed_take_bit 63 (uint w)"
    by (simp add: sint_uint)
  also have "\<dots> = uint w"
    by (rule signed_take_bit_int_eq_self [OF lo hi])
  finally show "\<not> sint w < 0" by simp
qed

lemma unat_lt_63: "uint (w :: u64) < 2 ^ 63 \<Longrightarrow> unat w < 2 ^ 63"
  by transfer simp

lemma sint_nonneg64_D:
  assumes "\<not> sint (w :: u64) < 0"
  shows "unat w < 2 ^ 63"
proof (rule ccontr)
  assume "\<not> unat w < 2 ^ 63"
  then have ge: "2 ^ 63 \<le> uint w"
    using unat_lt_63 [of w] by linarith
  have "sint w = signed_take_bit 63 (uint w)"
    by (simp add: sint_uint)
  also have "\<dots> \<le> uint w - 2 ^ Suc 63"
    by (rule signed_take_bit_int_less_eq [OF ge])
  also have "\<dots> < 0"
    using uint_bounded [of w] by simp
  finally show False using assms by simp
qed

lemma max_offset_lt: "max_offset < 2 ^ 63"
  by (simp add: max_offset_def)

lemma chunk_inv_step:
  assumes inv: "chunk_inv H n ds fs s"
    and w: "WriteMessage fs s idx d = Returned (fs', s') None"
  shows "chunk_inv H n (ds @ [d]) fs' s'"
proof -
  let ?k = "length ds"
  let ?pos = "unat H + total ds"
  from inv obtain f where I: "index s = Mapped n"
    and Hn: "unat H = 8 * n + 8"
    and kn: "?k < n"
    and Sz: "Size s = of_nat ?k"
    and fp: "file_pos s = Some ?pos"
    and mo0: "?pos \<le> max_offset"
    and F: "fs (store_path s) = Some f"
    and fpos: "0 < flen f"
    and c0: "map_get f 0 = Capacity s"
    and offs: "\<forall>i \<le> ?k. map_get f (i + 1) = H + of_nat (total (take i ds))"
    and rd: "\<forall>i < ?k. pread f (unat H + total (take i ds)) (length (ds ! i)) = ds ! i"
    and fl: "0 < total ds \<longrightarrow> ?pos \<le> flen f"
    unfolding chunk_inv_def by (elim conjE exE)
  define f1 where "f1 = pwrite f ?pos d"
  define v where "v = map_get f1 (unat idx + 1) + of_nat (length d)"
  define f2 where "f2 = map_set f1 (unat idx + 2) v"
  note ws = WriteMessage_success [OF I F fp w]
  have idx: "idx = Size s" and lt: "idx < Capacity s"
    and mo: "?pos + length d \<le> max_offset" and slot: "unat idx + 1 < n"
    using ws(1-4) by simp_all
  have fs': "fs' = fs(store_path s \<mapsto> f2)"
    using ws(5) by (simp add: f1_def v_def f2_def)
  have s': "s' = s\<lparr>file_pos := Some (?pos + length d), Size := Size s + 1\<rparr>"
    using ws(6) .
  have Hlt: "unat H < 2 ^ 64"
    using unsigned_less [of H] by simp
  have k64: "?k < 2 ^ 64"
    using kn Hn Hlt by simp
  have kk: "unat idx = ?k"
    using idx Sz k64 by (simp add: unat_of_nat64)
  have below: "8 * j + 8 \<le> ?pos" if "j \<le> n" for j
    using that Hn by linarith
  have g1: "map_get f1 j = map_get f j" if "j \<le> n" for j
    unfolding f1_def by (rule map_get_pwrite_other) (use below [OF that] in blast)
  have v_eq: "v = H + of_nat (total (ds @ [d]))"
  proof -
    have "map_get f1 (?k + 1) = H + of_nat (total ds)"
      using g1 [of "?k + 1"] kn offs by simp
    then show ?thesis
      by (simp add: v_def kk total_append total_def)
  qed
  have fl1: "flen f \<le> flen f1"
    by (simp add: f1_def flen_pwrite_ge)
  have fl2: "flen f1 \<le> flen f2"
    by (simp add: f2_def flen_map_set)
  have fpos': "0 < flen f2"
    using fpos fl1 fl2 by linarith
  have c0': "map_get f2 0 = Capacity s"
    using g1 [of 0] c0 by (simp add: f2_def map_get_map_set)
  have offs': "\<forall>i \<le> length (ds @ [d]). map_get f2 (i + 1) = H + of_nat (total (take i (ds @ [d])))"
  proof (intro allI impI)
    fix i assume "i \<le> length (ds @ [d])"
    then consider "i \<le> ?k" | "i = ?k + 1" by fastforce
    then show "map_get f2 (i + 1) = H + of_nat (total (take i (ds @ [d])))"
    proof cases
      case 1
      then have "map_get f2 (i + 1) = map_get f (i + 1)"
        using g1 [of "i + 1"] kn by (simp add: f2_def map_get_map_set kk)
      with 1 offs show ?thesis by simp
    next
      case 2
      then show ?thesis
        by (simp add: f2_def map_get_map_set kk v_eq)
    qed
  qed
  have rd': "\<forall>i < length (ds @ [d]).
      pread f2 (unat H + total (take i (ds @ [d]))) (length ((ds @ [d]) ! i)) = (ds @ [d]) ! i"
  proof (intro allI impI)
    fix i assume "i < length (ds @ [d])"
    then consider "i < ?k" | "i = ?k" by fastforce
    then show "pread f2 (unat H + total (take i (ds @ [d]))) (length ((ds @ [d]) ! i)) = (ds @ [d]) ! i"
    proof cases
      case 1
      let ?q = "unat H + total (take i ds)"
      let ?m = "length (ds ! i)"
      have old: "pread f ?q ?m = ds ! i" using rd 1 by blast
      have end_le: "?q + ?m \<le> ?pos"
        using total_take_Suc [OF 1] total_take_le [of "Suc i" ds] by linarith
      have "pread f2 ?q ?m = ds ! i"
      proof (cases "?m = 0")
        case True
        then show ?thesis by (simp add: pread_zero)
      next
        case False
        then have "0 < total ds"
          using total_take_Suc [OF 1] total_take_le [of "Suc i" ds] by linarith
        with fl end_le have inf: "?q + ?m \<le> flen f" by linarith
        have "pread f2 ?q ?m = pread f1 ?q ?m"
          unfolding f2_def
          by (rule pread_map_set_other) (use inf fl1 slot Hn kk in arith)+
        also have "\<dots> = pread f ?q ?m"
          unfolding f1_def
          by (rule pread_pwrite_other) (use inf end_le in simp_all)
        finally show ?thesis using old by simp
      qed
      with 1 show ?thesis by (simp add: nth_append)
    next
      case 2
      have "pread f2 ?pos (length d) = d"
      proof (cases "d = []")
        case True
        then show ?thesis by (simp add: pread_zero)
      next
        case False
        then have "?pos + length d \<le> flen f1"
          by (simp add: f1_def flen_pwrite)
        then have "pread f2 ?pos (length d) = pread f1 ?pos (length d)"
          unfolding f2_def
          by (intro pread_map_set_other) (use slot Hn kk in arith)+
        then show ?thesis by (simp add: f1_def pread_pwrite_same)
      qed
      with 2 show ?thesis by simp
    qed
  qed
  have fl': "0 < total (ds @ [d]) \<longrightarrow> unat H + total (ds @ [d]) \<le> flen f2"
  proof (cases "d = []")
    case True
    with fl fl1 fl2 show ?thesis by (auto simp add: total_append total_def)
  next
    case False
    then have "?pos + length d \<le> flen f1"
      by (simp add: f1_def flen_pwrite)
    with fl2 show ?thesis by (simp add: total_append total_def)
  qed
  have cap': "length (ds @ [d]) \<le> unat (Capacity s')"
    using lt kk by (simp add: s' word_less_nat_alt)
  have sz': "Size s' = of_nat (length (ds @ [d]))"
    by (simp add: s' Sz)
  have fp': "file_pos s' = Some (unat H + total (ds @ [d]))"
    by (simp add: s' total_append total_def)
  have mo': "unat H + total (ds @ [d]) \<le> max_offset"
    using mo by (simp add: total_append total_def)
  have F': "fs' (store_path s') = Some f2"
    by (simp add: fs' s')
  have "index s' = Mapped n" "unat H = 8 * n + 8" "length (ds @ [d]) < n"
    using I Hn slot kk by (simp_all add: s')
  with sz' cap' fp' mo' F' fpos' c0' offs' rd' fl' show ?thesis
    unfolding chunk_inv_def by (auto simp add: s')
qed

lemma unat_header_mod8: "unat (header_of c) mod 8 = 0"
proof -
  have "unat ((c + 2) * 8) = unat (c + 2) * unat (8 :: u64) mod 2 ^ LENGTH(64)"
    by (rule unat_word_ariths(2))
  then have "unat (header_of c) = (unat (c + 2) * 8) mod 2 ^ 64"
    by (simp add: header_of_def nSize_def)
  moreover have "((unat (c + 2) * 8) mod 2 ^ 64) mod 8 = (unat (c + 2) * 8) mod 8"
    by (rule mod_mod_cancel) simp
  ultimately show ?thesis by simp
qed

lemma mapped_words_Some:
  assumes "mapped_words f sz = Some m"
  shows "m = unat sz div 8" and "unat sz \<noteq> 0"
proof -
  show "m = unat sz div 8"
    using assms by (auto simp add: mapped_words_def nSize_def Let_def split: if_splits)
  have "sz \<noteq> 0"
    using assms by (auto simp add: mapped_words_def Let_def split: if_splits)
  then show "unat sz \<noteq> 0"
    by (simp add: unat_eq_zero)
qed

lemma NewFileStorage_success:
  assumes "NewFileStorage fs0 root ident c = Ok (fs1, s1)"
  shows "\<exists>fsA f1 n. open_file fs0 (fname ident root) True = Some fsA \<and> fsA (fname ident root) = Some f1
      \<and> unat (header_of c) = 8 * n + 8 \<and> 0 < n \<and> unat (header_of c) < 2 ^ 63
      \<and> fs1 = fsA(fname ident root \<mapsto> map_set (map_set f1 0 c) 1 (header_of c))
      \<and> s1 = \<lparr>fileId = ident, rootPath = root, file_pos = Some (unat (header_of c)), Capacity = c,
               Size = 0, index = Mapped n\<rparr>"
proof -
  let ?P = "fname ident root"
  let ?H = "header_of c"
  from assms obtain fsA f1 m where o: "open_file fs0 ?P True = Some fsA"
    and f: "fsA ?P = Some f1" and mw: "mapped_words f1 ?H = Some m" and m1: "\<not> m < 1"
    and rest: "(case index_set (fsA(?P \<mapsto> map_set f1 0 c))
                 \<lparr>fileId = ident, rootPath = root, file_pos = None, Capacity = c, Size = 0, index = Mapped (m - 1)\<rparr>
                 0 ?H of None \<Rightarrow> Panic
               | Some (fs3, store3) \<Rightarrow>
                   if sint ?H < 0 then Panic
                   else Ok (fs3, store3\<lparr>file_pos := Some (unat ?H)\<rparr>)) = Ok (fs1, s1)"
    by (auto simp add: NewFileStorage_def init_def store_path_def header_of_def Let_def
        split: option.splits if_splits)
  from rest have m2: "0 < m - 1" and sg: "\<not> sint ?H < 0"
    and fs1: "fs1 = fsA(?P \<mapsto> map_set (map_set f1 0 c) 1 ?H)"
    and s1: "s1 = \<lparr>fileId = ident, rootPath = root, file_pos = Some (unat ?H), Capacity = c,
               Size = 0, index = Mapped (m - 1)\<rparr>"
    by (auto simp add: index_set_def store_path_def split: option.splits if_splits)
  have "m = unat ?H div 8" using mapped_words_Some(1) [OF mw] .
  with unat_header_mod8 [of c] have "unat ?H = 8 * m"
    by (metis add.right_neutral mult_div_mod_eq)
  with m2 have "unat ?H = 8 * (m - 1) + 8" by simp
  with o f m2 fs1 s1 sint_nonneg64_D [OF sg] show ?thesis by blast
qed

lemma total_Nil [simp]: "total [] = 0"
  by (simp add: total_def)

lemma chunk_inv_init:
  assumes "NewFileStorage fs0 root ident c = Ok (fs1, s1)"
  shows "\<exists>n. chunk_inv (header_of c) n [] fs1 s1" and "Capacity s1 = c"
    and "store_path s1 = fname ident root"
proof -
  from NewFileStorage_success [OF assms] obtain fsA f1 n where
    Hn: "unat (header_of c) = 8 * n + 8" and n: "0 < n" and H63: "unat (header_of c) < 2 ^ 63"
    and fs1: "fs1 = fsA(fname ident root \<mapsto> map_set (map_set f1 0 c) 1 (header_of c))"
    and s1: "s1 = \<lparr>fileId = ident, rootPath = root, file_pos = Some (unat (header_of c)), Capacity = c,
               Size = 0, index = Mapped n\<rparr>"
    by blast
  show "Capacity s1 = c" by (simp add: s1)
  show "store_path s1 = fname ident root" by (simp add: s1 store_path_def)
  have mo: "8 * n + 8 \<le> max_offset"
    using H63 Hn by (simp add: max_offset_def)
  have "0 < flen (map_set f1 0 c)"
    by (simp add: flen_map_set)
  then have fl: "0 < flen (map_set (map_set f1 0 c) (Suc 0) (header_of c))"
    using flen_map_set [of "map_set f1 0 c" "Suc 0" "header_of c"] by simp
  have "chunk_inv (header_of c) n [] fs1 s1"
    unfolding chunk_inv_def
    using Hn n mo fl by (simp add: s1 fs1 store_path_def map_get_map_set)
  then show "\<exists>n. chunk_inv (header_of c) n [] fs1 s1" ..
qed

lemma writes_inv:
  assumes "chunk_inv H n ds fs s" and "writes fs s calls = Some (fs', s')"
  shows "chunk_inv H n (ds @ map snd calls) fs' s'"
  using assms
proof (induction calls arbitrary: fs s ds)
  case Nil
  then show ?case by simp
next
  case (Cons call calls)
  obtain idx d where call: "call = (idx, d)" by (cases call)
  from Cons.prems(2) obtain fs1 s1 where w: "WriteMessage fs s idx d = Returned (fs1, s1) None"
    and rest: "writes fs1 s1 calls = Some (fs', s')"
    by (auto simp add: call split: run.splits option.splits)
  from chunk_inv_step [OF Cons.prems(1) w] have "chunk_inv H n (ds @ [d]) fs1 s1" .
  from Cons.IH [OF this rest] show ?case by (simp add: call)
qed

lemma unat_plus_of_nat64:
  assumes "unat (H :: u64) + t < 2 ^ 64"
  shows "unat (H + of_nat t) = unat H + t"
proof -
  have t: "unat (of_nat t :: u64) = t"
    using assms by (simp add: unat_of_nat)
  have "unat H + unat (of_nat t :: u64) < 2 ^ LENGTH(64)"
    using assms t by simp
  then have "unat (H + of_nat t) = unat H + unat (of_nat t :: u64)"
    by (simp only: unat_add_lem)
  with t show ?thesis by simp
qed

lemma chunk_inv_len64:
  assumes "chunk_inv H n ds fs s"
  shows "length ds < 2 ^ 64"
proof -
  from assms have "unat H = 8 * n + 8" and "length ds < n"
    by (simp_all add: chunk_inv_def)
  moreover have "unat H < 2 ^ 64"
    using unsigned_less [of H] by simp
  ultimately show ?thesis by simp
qed

lemma chunk_inv_Size:
  assumes "chunk_inv H n ds fs s"
  shows "Size s = of_nat (length ds)" and "unat (Size s) = length ds"
    and "length ds \<le> unat (Capacity s)"
proof -
  from assms show sz: "Size s = of_nat (length ds)" and "length ds \<le> unat (Capacity s)"
    by (simp_all add: chunk_inv_def)
  show "unat (Size s) = length ds"
    using chunk_inv_len64 [OF assms] by (simp add: sz unat_of_nat)
qed

lemma chunk_inv_offset_bound:
  assumes "chunk_inv H n ds fs s" and "i \<le> length ds" and "ds \<noteq> []"
  shows "unat H + total (take i ds) < 2 ^ 63"
proof -
  from assms have "unat H + total ds \<le> max_offset"
    by (simp add: chunk_inv_def)
  with total_take_le [of i ds] max_offset_lt show ?thesis by linarith
qed

lemma chunk_inv_offset_unat:
  assumes "chunk_inv H n ds fs s" and "i \<le> length ds"
  shows "unat (H + of_nat (total (take i ds))) = unat H + total (take i ds)"
proof (cases "ds = []")
  case True
  then show ?thesis by simp
next
  case False
  from chunk_inv_offset_bound [OF assms False]
  have "unat H + total (take i ds) < 2 ^ 64" by simp
  then show ?thesis by (rule unat_plus_of_nat64)
qed

lemma chunk_inv_index_get:
  assumes "chunk_inv H n ds fs s" and "i \<le> length ds"
  shows "index_get fs s i = Some (H + of_nat (total (take i ds)))"
proof -
  from assms(1) obtain f where "index s = Mapped n" and "length ds < n"
    and "fs (store_path s) = Some f"
    and "\<forall>i \<le> length ds. map_get f (i + 1) = H + of_nat (total (take i ds))"
    unfolding chunk_inv_def by (elim conjE exE)
  with assms(2) show ?thesis
    by (simp add: index_get_def)
qed

lemma of_nat_less_Size:
  assumes "chunk_inv H n ds fs s" and "i < length ds"
  shows "\<not> (of_nat i :: u64) \<ge> Size s" and "\<not> (of_nat i :: u64) \<ge> Capacity s"
    and "unat (of_nat i :: u64) = i"
proof -
  have k: "length ds < 2 ^ 64" by (rule chunk_inv_len64 [OF assms(1)])
  with assms(2) show i: "unat (of_nat i :: u64) = i"
    by (simp add: unat_of_nat)
  from chunk_inv_Size [OF assms(1)] have "unat (Size s) = length ds"
    and "length ds \<le> unat (Capacity s)" by simp_all
  with i assms(2) show "\<not> (of_nat i :: u64) \<ge> Size s" and "\<not> (of_nat i :: u64) \<ge> Capacity s"
    by (simp_all add: word_le_nat_alt)
qed

lemma chunk_inv_SizeOf:
  assumes "chunk_inv H n ds fs s" and "i < length ds"
  shows "SizeOf fs s (of_nat i) = Ok (of_nat (length (ds ! i)))"
proof -
  have top: "index_get fs s (i + 1) = Some (H + of_nat (total (take (Suc i) ds)))"
    using chunk_inv_index_get [OF assms(1), of "Suc i"] assms(2) by simp
  have bot: "index_get fs s i = Some (H + of_nat (total (take i ds)))"
    using chunk_inv_index_get [OF assms(1), of i] assms(2) by simp
  show ?thesis
    using of_nat_less_Size [OF assms] top bot
    by (simp add: SizeOf_def total_take_Suc [OF assms(2)])
qed

lemma chunk_inv_msg_len:
  assumes "chunk_inv H n ds fs s" and "i < length ds"
  shows "unat (of_nat (length (ds ! i)) :: u64) = length (ds ! i)"
proof -
  from assms have ne: "ds \<noteq> []" by auto
  have "total (take (Suc i) ds) = total (take i ds) + length (ds ! i)"
    by (rule total_take_Suc [OF assms(2)])
  with chunk_inv_offset_bound [OF assms(1) _ ne, of "Suc i"] assms(2)
  have "length (ds ! i) < 2 ^ 63" by simp
  then show ?thesis by (simp add: unat_of_nat)
qed

lemma chunk_inv_ReaderAt:
  assumes "chunk_inv H n ds fs s" and "i < length ds"
  shows "ReaderAt fs s (of_nat i) = Ok \<lparr>hpath = store_path s, hpos = unat H + total (take i ds)\<rparr>"
proof -
  from assms have ne: "ds \<noteq> []" by auto
  from assms(1) obtain f where F: "fs (store_path s) = Some f"
    unfolding chunk_inv_def by (elim conjE exE)
  have bot: "index_get fs s i = Some (H + of_nat (total (take i ds)))"
    using chunk_inv_index_get [OF assms(1), of i] assms(2) by simp
  have u: "unat (H + of_nat (total (take i ds))) = unat H + total (take i ds)"
    using chunk_inv_offset_unat [OF assms(1), of i] assms(2) by simp
  have "unat (H + of_nat (total (take i ds))) < 2 ^ 63"
    using chunk_inv_offset_bound [OF assms(1) _ ne, of i] assms(2) u by simp
  then have "\<not> sint (H + of_nat (total (take i ds))) < 0"
    by (rule sint_nonneg64)
  then show ?thesis
    using of_nat_less_Size [OF assms] F bot u
    by (simp add: ReaderAt_def)
qed

lemma length_pread_le: "length (pread f p n) \<le> n"
  by (simp add: pread_def)

lemma chunk_inv_Read:
  assumes "chunk_inv H n ds fs s" and "i < length ds"
  shows "handle_Read fs \<lparr>hpath = store_path s, hpos = unat H + total (take i ds)\<rparr> (length (ds ! i))
    = Ok (ds ! i, \<lparr>hpath = store_path s, hpos = unat H + total (take i ds) + length (ds ! i)\<rparr>)"
proof -
  from assms(1) obtain f where F: "fs (store_path s) = Some f"
    and rd: "\<forall>i < length ds. pread f (unat H + total (take i ds)) (length (ds ! i)) = ds ! i"
    unfolding chunk_inv_def by (elim conjE exE)
  from rd assms(2) have "pread f (unat H + total (take i ds)) (length (ds ! i)) = ds ! i"
    by blast
  with F show ?thesis
    by (auto simp add: handle_Read_def Let_def)
qed

lemma WriteMessage_succeeds:
  assumes "idx = Size s" and "\<not> sint idx < 0" and "idx < Capacity s" and "chunk_writable fs s d"
  shows "\<exists>fs' s'. WriteMessage fs s idx d = Returned (fs', s') None \<and> Size s' = Size s + 1
      \<and> Capacity s' = Capacity s"
proof -
  from assms(4) obtain pos f where fp: "file_pos s = Some pos" and F: "fs (store_path s) = Some f"
    and fit: "pos + length d \<le> max_offset" and slot: "unat (Size s) + 1 < slice_len (index s)"
    by (auto simp add: chunk_writable_def split: option.splits)
  show ?thesis
  proof (cases "index s")
    case (Mapped n)
    with assms(1-3) fp F fit slot show ?thesis
      by (simp add: WriteMessage_def file_Write_def index_get_def index_set_def slice_len_def not_le)
  next
    case (Heap xs)
    with assms(1-3) fp F fit slot show ?thesis
      by (simp add: WriteMessage_def file_Write_def index_get_def index_set_def slice_len_def not_le)
  qed
qed




lemma unat_header_nowrap:
  assumes "unat c + 2 < 2 ^ 61"
  shows "unat (header_of c) = 8 * (unat c + 2)"
proof -
  have "unat c + unat (2 :: u64) < 2 ^ LENGTH(64)"
    using assms by simp
  then have c2: "unat (c + 2) = unat c + 2"
    by (simp only: unat_add_lem) simp
  have "unat (c + 2) * unat (8 :: u64) < 2 ^ LENGTH(64)"
    using assms c2 by simp
  then have "unat ((c + 2) * 8) = unat (c + 2) * unat (8 :: u64)"
    by (simp only: unat_mult_lem)
  with c2 show ?thesis
    by (simp add: header_of_def nSize_def)
qed

lemma open_file_create:
  "\<exists>fsA f. open_file fs p True = Some fsA \<and> fsA p = Some f \<and> 0 < flen f
     \<and> (fs p = None \<longrightarrow> f = zero_file os_Getpagesize)"
  by (cases "fs p") (auto simp add: open_file_def flen_zero_file os_Getpagesize_def)

lemma mapped_words_ok:
  assumes "unat sz < 2 ^ 63" and "sz \<noteq> 0"
  shows "mapped_words f sz = Some (unat sz div 8)"
proof -
  have "\<not> sint sz < 0" by (rule sint_nonneg64 [OF assms(1)])
  moreover have "unat sz \<noteq> 0" using assms(2) by (simp add: unat_eq_zero)
  ultimately show ?thesis
    by (simp add: mapped_words_def nSize_def)
qed

lemma NewFileStorage_succeeds:
  assumes "unat c + 2 < 2 ^ 60"
  shows "\<exists>fs1 s1. NewFileStorage fs0 root ident c = Ok (fs1, s1)"
proof -
  let ?P = "fname ident root"
  let ?H = "header_of c"
  have H: "unat ?H = 8 * (unat c + 2)"
    by (rule unat_header_nowrap) (use assms in simp)
  then have H63: "unat ?H < 2 ^ 63" and H0: "?H \<noteq> 0"
    using assms by (simp_all flip: unat_eq_zero)
  obtain fsA f where o: "open_file fs0 ?P True = Some fsA" and f: "fsA ?P = Some f"
    using open_file_create [of fs0 ?P] by blast
  have mw: "mapped_words f ?H = Some (unat c + 2)"
    using mapped_words_ok [OF H63 H0, of f] H by simp
  show ?thesis
    using o f mw sint_nonneg64 [OF H63]
    by (simp add: NewFileStorage_def init_def store_path_def header_of_def [symmetric]
        index_set_def Let_def)
qed

lemma chunk_inv_init_nowrap:
  assumes "NewFileStorage fs0 root ident c = Ok (fs1, s1)" and "unat c + 2 < 2 ^ 61"
  shows "chunk_inv (header_of c) (unat c + 1) [] fs1 s1"
proof -
  from chunk_inv_init(1) [OF assms(1)] obtain n where inv: "chunk_inv (header_of c) n [] fs1 s1" ..
  then have "unat (header_of c) = 8 * n + 8" by (simp add: chunk_inv_def)
  with unat_header_nowrap [OF assms(2)] have "n = unat c + 1" by simp
  with inv show ?thesis by simp
qed

lemma chunk_inv_writable:
  assumes "chunk_inv H n ds fs s" and "length ds + 1 < n"
    and "unat H + total ds + length d \<le> max_offset"
  shows "chunk_writable fs s d"
proof -
  from assms(1) obtain f where "index s = Mapped n" and "file_pos s = Some (unat H + total ds)"
    and "fs (store_path s) = Some f"
    unfolding chunk_inv_def by (elim conjE exE)
  with assms(2,3) chunk_inv_Size(2) [OF assms(1)] show ?thesis
    by (simp add: chunk_writable_def slice_len_def)
qed

lemma writes_frame:
  assumes "chunk_inv H n ds fs s" and "writes fs s calls = Some (fs', s')"
  shows "Capacity s' = Capacity s \<and> store_path s' = store_path s"
  using assms
proof (induction calls arbitrary: fs s ds)
  case Nil
  then show ?case by simp
next
  case (Cons call calls)
  obtain idx d where call: "call = (idx, d)" by (cases call)
  from Cons.prems(2) obtain fs1 s1 where w: "WriteMessage fs s idx d = Returned (fs1, s1) None"
    and rest: "writes fs1 s1 calls = Some (fs', s')"
    by (auto simp add: call split: run.splits option.splits)
  from Cons.prems(1) obtain f where I: "index s = Mapped n" and F: "fs (store_path s) = Some f"
    and fp: "file_pos s = Some (unat H + total ds)"
    unfolding chunk_inv_def by (elim conjE exE)
  from WriteMessage_success(6) [OF I F fp w]
  have s1: "Capacity s1 = Capacity s" "store_path s1 = store_path s"
    by (simp_all add: store_path_def)
  from chunk_inv_step [OF Cons.prems(1) w] have "chunk_inv H n (ds @ [d]) fs1 s1" .
  from Cons.IH [OF this rest] s1 show ?case by simp
qed

lemma writes_succeed:
  assumes "chunk_inv H n ds fs s"
    and "map fst calls = map of_nat [length ds ..< length ds + length calls]"
    and "length ds + length calls < n"
    and "length ds + length calls \<le> unat (Capacity s)"
    and "unat H + total ds + total (map snd calls) \<le> max_offset"
  shows "\<exists>fs' s'. writes fs s calls = Some (fs', s')"
  using assms
proof (induction calls arbitrary: fs s ds)
  case Nil
  show ?case by simp
next
  case (Cons call calls)
  obtain idx d where call: "call = (idx, d)" by (cases call)
  let ?k = "length ds"
  have "[?k ..< ?k + Suc (length calls)] = ?k # [Suc ?k ..< ?k + Suc (length calls)]"
    by (rule upt_conv_Cons) simp
  then have upt: "[?k ..< ?k + length (call # calls)] = ?k # [Suc ?k ..< Suc ?k + length calls]"
    by simp
  from Cons.prems(2) have idx: "idx = of_nat ?k"
    and tl: "map fst calls = map of_nat [Suc ?k ..< Suc ?k + length calls]"
    unfolding upt by (simp_all add: call)
  have sz: "Size s = of_nat ?k" "unat (Size s) = ?k"
    using chunk_inv_Size [OF Cons.prems(1)] by simp_all
  have kn: "?k + 1 < n" using Cons.prems(3) by simp
  have kc: "?k < unat (Capacity s)" using Cons.prems(4) by simp
  have "unat H = 8 * n + 8" using Cons.prems(1) by (simp add: chunk_inv_def)
  moreover have "unat H < 2 ^ 64" using unsigned_less [of H] by simp
  ultimately have "?k < 2 ^ 63" using kn by simp
  then have "unat idx < 2 ^ 63" using sz by (simp add: idx)
  then have nonneg: "\<not> sint idx < 0" by (rule sint_nonneg64)
  have lt: "idx < Capacity s"
    using kc sz by (simp add: idx word_less_nat_alt)
  have fit: "unat H + total ds + length d \<le> max_offset"
    using Cons.prems(5) by (simp add: call total_def)
  have wr: "chunk_writable fs s d"
    by (rule chunk_inv_writable [OF Cons.prems(1) kn fit])
  from WriteMessage_succeeds [OF _ nonneg lt wr] idx sz
  obtain fs1 s1 where w: "WriteMessage fs s idx d = Returned (fs1, s1) None"
    and c1: "Capacity s1 = Capacity s"
    by auto
  have inv1: "chunk_inv H n (ds @ [d]) fs1 s1"
    by (rule chunk_inv_step [OF Cons.prems(1) w])
  have "\<exists>fs' s'. writes fs1 s1 calls = Some (fs', s')"
  proof (rule Cons.IH [OF inv1])
    show "map fst calls = map of_nat [length (ds @ [d]) ..< length (ds @ [d]) + length calls]"
      using tl by simp
    show "length (ds @ [d]) + length calls < n" using Cons.prems(3) by simp
    show "length (ds @ [d]) + length calls \<le> unat (Capacity s1)"
      using Cons.prems(4) c1 by simp
    show "unat H + total (ds @ [d]) + total (map snd calls) \<le> max_offset"
      using Cons.prems(5) by (simp add: call total_def)
  qed
  with w show ?case by (simp add: call)
qed

text \<open>The calls that write the payloads \<open>ds\<close> at the ordinals \<open>0, 1, ...\<close>.\<close>

lemma fresh_writes_succeed:
  assumes "unat c + 2 < 2 ^ 60" and "length ds \<le> unat c"
    and "8 * (unat c + 2) + total ds \<le> max_offset"
  shows "\<exists>fs1 s1 fs s. NewFileStorage fs0 root ident c = Ok (fs1, s1)
     \<and> writes fs1 s1 (zip (map of_nat [0 ..< length ds]) ds) = Some (fs, s)"
proof -
  from NewFileStorage_succeeds [OF assms(1)] obtain fs1 s1
    where c: "NewFileStorage fs0 root ident c = Ok (fs1, s1)" by blast
  have nw: "unat c + 2 < 2 ^ 61" using assms(1) by simp
  have inv: "chunk_inv (header_of c) (unat c + 1) [] fs1 s1"
    by (rule chunk_inv_init_nowrap [OF c nw])
  have cap: "Capacity s1 = c" by (rule chunk_inv_init(2) [OF c])
  let ?calls = "zip (map of_nat [0 ..< length ds]) ds"
  have "\<exists>fs s. writes fs1 s1 ?calls = Some (fs, s)"
  proof (rule writes_succeed [OF inv])
    show "map fst ?calls = map of_nat [length [] ..< length [] + length ?calls]"
      by simp
    show "length [] + length ?calls < unat c + 1" using assms(2) by simp
    show "length [] + length ?calls \<le> unat (Capacity s1)" using assms(2) cap by simp
    show "unat (header_of c) + total [] + total (map snd ?calls) \<le> max_offset"
      using assms(3) unat_header_nowrap [OF nw] by simp
  qed
  with c show ?thesis by blast
qed

section \<open>The claims\<close>

text \<open>
  C7.  On a chunk made by \<open>NewFileStorage\<close>, after \<open>k\<close> calls of \<open>WriteMessage\<close> that all
  returned without an error, with the payloads \<open>data_0, ..., data_(k-1)\<close>: \<open>Size\<close> is
  \<open>k\<close> (and \<open>k\<close> is at most the capacity), entry \<open>k\<close> of the offset table is the header size
  \<open>H = (capacity + 2) * 8\<close> plus the sum of the payload lengths, without wrap-around, and for
  every \<open>i < k\<close> the call \<open>SizeOf(i)\<close> succeeds and returns the length of \<open>data_i\<close>, which is
  entry \<open>i + 1\<close> minus entry \<open>i\<close> of the offset table.
\<close>

theorem fresh_chunk_sizes:
  assumes "NewFileStorage fs0 root ident capacity = Ok (fs1, s1)"
    and "writes fs1 s1 calls = Some (fs, s)"
  shows "Size s = of_nat (length calls) \<and> unat (Size s) = length calls
    \<and> length calls \<le> unat capacity
    \<and> index_get fs s (length calls) = Some (header_of capacity + of_nat (total (map snd calls)))
    \<and> unat (header_of capacity + of_nat (total (map snd calls)))
        = unat (header_of capacity) + total (map snd calls)
    \<and> (\<forall>i < length calls.
          SizeOf fs s (of_nat i) = Ok (of_nat (length (snd (calls ! i))))
        \<and> unat (of_nat (length (snd (calls ! i))) :: u64) = length (snd (calls ! i))
        \<and> (\<exists>a b. index_get fs s i = Some a \<and> index_get fs s (i + 1) = Some b
               \<and> b - a = of_nat (length (snd (calls ! i)))))"
proof -
  let ?H = "header_of capacity"
  let ?ds = "map snd calls"
  from chunk_inv_init(1) [OF assms(1)] obtain n where inv0: "chunk_inv ?H n [] fs1 s1" ..
  have inv: "chunk_inv ?H n ?ds fs s"
    using writes_inv [OF inv0 assms(2)] by simp
  have cap: "Capacity s = capacity"
    using writes_frame [OF inv0 assms(2)] chunk_inv_init(2) [OF assms(1)] by simp
  have 1: "Size s = of_nat (length calls)" "unat (Size s) = length calls"
    "length calls \<le> unat capacity"
    using chunk_inv_Size [OF inv] cap by simp_all
  have 2: "index_get fs s (length calls) = Some (?H + of_nat (total ?ds))"
    using chunk_inv_index_get [OF inv, of "length calls"] by simp
  have 3: "unat (?H + of_nat (total ?ds)) = unat ?H + total ?ds"
    using chunk_inv_offset_unat [OF inv, of "length calls"] by simp
  have 4: "SizeOf fs s (of_nat i) = Ok (of_nat (length (snd (calls ! i))))
        \<and> unat (of_nat (length (snd (calls ! i))) :: u64) = length (snd (calls ! i))
        \<and> (\<exists>a b. index_get fs s i = Some a \<and> index_get fs s (i + 1) = Some b
               \<and> b - a = of_nat (length (snd (calls ! i))))" if "i < length calls" for i
  proof -
    from that have i: "i < length ?ds" by simp
    have a: "index_get fs s i = Some (?H + of_nat (total (take i ?ds)))"
      using chunk_inv_index_get [OF inv, of i] i by simp
    have b: "index_get fs s (i + 1) = Some (?H + of_nat (total (take (Suc i) ?ds)))"
      using chunk_inv_index_get [OF inv, of "Suc i"] i by simp
    have "(?H + of_nat (total (take (Suc i) ?ds))) - (?H + of_nat (total (take i ?ds)))
        = of_nat (length (?ds ! i))"
      by (simp add: total_take_Suc [OF i])
    with a b chunk_inv_SizeOf [OF inv i] chunk_inv_msg_len [OF inv i] that
    show ?thesis by simp
  qed
  from 1 2 3 4 show ?thesis by blast
qed

text \<open>
  The hypotheses of C7 hold for a chunk of capacity 10 in an empty directory and two
  messages of 3 bytes and 1 byte: \<open>H\<close> is 96 and entry 2 of the offset table is 100.
\<close>

theorem fresh_chunk_sizes_witness:
  "case NewFileStorage Map.empty '''' ''id'' 10 of
     Ok (fs1, s1) \<Rightarrow>
       (case writes fs1 s1 [(0, [1, 2, 3]), (1, [4])] of
          Some (fs, s) \<Rightarrow>
            Size s = 2 \<and> index_get fs s 2 = Some 100 \<and> SizeOf fs s 0 = Ok 3 \<and> SizeOf fs s 1 = Ok 1
        | None \<Rightarrow> False)
   | Err e \<Rightarrow> False
   | Panic \<Rightarrow> False"
proof -
  let ?calls = "[(0, [1, 2, 3]), (1, [4])] :: (u64 \<times> byte list) list"
  have z: "zip (map of_nat [0 ..< length [[1, 2, 3], [4 :: byte]]]) [[1, 2, 3], [4]] = ?calls"
    by (simp add: upt_rec)
  from fresh_writes_succeed [of 10 "[[1, 2, 3], [4]]" Map.empty "''''" "''id''"]
  obtain fs1 s1 fs s where c: "NewFileStorage Map.empty '''' ''id'' 10 = Ok (fs1, s1)"
    and w: "writes fs1 s1 ?calls = Some (fs, s)"
    unfolding z by (auto simp add: total_def max_offset_def)
  note T = fresh_chunk_sizes [OF c w]
  have h: "header_of 10 = 96" by (simp add: header_of_def nSize_def)
  from T have a: "Size s = 2" by simp
  from T have b: "index_get fs s 2 = Some 100" by (simp add: h total_def numeral_2_eq_2)
  from T have all: "\<forall>i < length ?calls. SizeOf fs s (of_nat i) = Ok (of_nat (length (snd (?calls ! i))))"
    by blast
  from all [rule_format, of 0] have d: "SizeOf fs s 0 = Ok 3" by simp
  from all [rule_format, of 1] have e: "SizeOf fs s 1 = Ok 1" by simp
  show ?thesis
    by (simp only: c w res.case option.case prod.case) (simp add: a b d e)
qed

text \<open>
  C1.  On a chunk made by \<open>NewFileStorage\<close>, after calls of \<open>WriteMessage\<close> that all returned
  without an error, \<open>Size\<close> is the number of calls, and for every ordinal \<open>i\<close> below it:
  \<open>ReaderAt(i)\<close> succeeds, \<open>SizeOf(i)\<close> succeeds, and reading \<open>SizeOf(i)\<close> bytes from the reader gives exactly
  the payload of call \<open>i\<close>.
\<close>

theorem read_back:
  assumes "NewFileStorage fs0 root ident capacity = Ok (fs1, s1)"
    and "writes fs1 s1 calls = Some (fs, s)"
    and "i < length calls"
  shows "unat (Size s) = length calls
     \<and> (\<exists>h m h'. ReaderAt fs s (of_nat i) = Ok h \<and> SizeOf fs s (of_nat i) = Ok m
          \<and> handle_Read fs h (unat m) = Ok (snd (calls ! i), h'))"
proof -
  let ?H = "header_of capacity"
  let ?ds = "map snd calls"
  from chunk_inv_init(1) [OF assms(1)] obtain n where inv0: "chunk_inv ?H n [] fs1 s1" ..
  have inv: "chunk_inv ?H n ?ds fs s"
    using writes_inv [OF inv0 assms(2)] by simp
  from assms(3) have i: "i < length ?ds" by simp
  have sz: "unat (Size s) = length calls"
    using chunk_inv_Size(2) [OF inv] by simp
  from chunk_inv_ReaderAt [OF inv i] chunk_inv_SizeOf [OF inv i] chunk_inv_msg_len [OF inv i]
    chunk_inv_Read [OF inv i] assms(3)
  have "\<exists>h m h'. ReaderAt fs s (of_nat i) = Ok h \<and> SizeOf fs s (of_nat i) = Ok m
          \<and> handle_Read fs h (unat m) = Ok (snd (calls ! i), h')"
    by simp
  with sz show ?thesis by (rule conjI)
qed

text \<open>The hypotheses of C1 hold for the same chunk; the second message reads back.\<close>

theorem read_back_witness:
  "case NewFileStorage Map.empty '''' ''id'' 10 of
     Ok (fs1, s1) \<Rightarrow>
       (case writes fs1 s1 [(0, [1, 2, 3]), (1, [4])] of
          Some (fs, s) \<Rightarrow>
            (case ReaderAt fs s 1 of
               Ok h \<Rightarrow>
                 (case SizeOf fs s 1 of
                    Ok m \<Rightarrow>
                      (case handle_Read fs h (unat m) of
                         Ok (bs, h') \<Rightarrow> bs = [4]
                       | Err e \<Rightarrow> False
                       | Panic \<Rightarrow> False)
                  | Err e \<Rightarrow> False
                  | Panic \<Rightarrow> False)
             | Err e \<Rightarrow> False
             | Panic \<Rightarrow> False)
        | None \<Rightarrow> False)
   | Err e \<Rightarrow> False
   | Panic \<Rightarrow> False"
proof -
  let ?calls = "[(0, [1, 2, 3]), (1, [4])] :: (u64 \<times> byte list) list"
  have z: "zip (map of_nat [0 ..< length [[1, 2, 3], [4 :: byte]]]) [[1, 2, 3], [4]] = ?calls"
    by (simp add: upt_rec)
  from fresh_writes_succeed [of 10 "[[1, 2, 3], [4]]" Map.empty "''''" "''id''"]
  obtain fs1 s1 fs s where c: "NewFileStorage Map.empty '''' ''id'' 10 = Ok (fs1, s1)"
    and w: "writes fs1 s1 ?calls = Some (fs, s)"
    unfolding z by (auto simp add: total_def max_offset_def)
  from read_back [OF c w, of 1]
  obtain h m h' where r: "ReaderAt fs s 1 = Ok h" "SizeOf fs s 1 = Ok m"
    "handle_Read fs h (unat m) = Ok ([4], h')"
    by auto
  show ?thesis
    by (simp only: c w r res.case option.case prod.case)
qed




lemma tail_zero_iff:
  "tail_zero n k fs s \<longleftrightarrow>
     (\<exists>f. fs (store_path s) = Some f \<and> (\<forall>j. k + 2 \<le> j \<and> j \<le> n \<longrightarrow> map_get f j = 0))"
  unfolding tail_zero_def list_all_iff set_upt
  by (cases "fs (store_path s)") (simp_all add: Ball_def less_Suc_eq_le)

lemma tail_zero_init:
  assumes "NewFileStorage fs0 root ident c = Ok (fs1, s1)" and "fs0 (fname ident root) = None"
  shows "tail_zero n 0 fs1 s1"
proof -
  let ?P = "fname ident root"
  from NewFileStorage_success [OF assms(1)] obtain fsA f1 m where
    o: "open_file fs0 ?P True = Some fsA" and f: "fsA ?P = Some f1"
    and fs1: "fs1 = fsA(?P \<mapsto> map_set (map_set f1 0 c) 1 (header_of c))"
    and s1: "s1 = \<lparr>fileId = ident, rootPath = root, file_pos = Some (unat (header_of c)), Capacity = c,
               Size = 0, index = Mapped m\<rparr>"
    by blast
  from o f assms(2) have "f1 = zero_file os_Getpagesize"
    by (auto simp add: open_file_def)
  then have "map_get (map_set (map_set f1 0 c) 1 (header_of c)) j = 0" if "2 \<le> j" for j
    using that by (simp add: map_get_map_set map_get_zero_file)
  then show ?thesis
    by (simp add: tail_zero_iff fs1 s1 store_path_def)
qed

lemma tail_zero_step:
  assumes inv: "chunk_inv H n ds fs s" and tz: "tail_zero n (length ds) fs s"
    and w: "WriteMessage fs s idx d = Returned (fs', s') None"
  shows "tail_zero n (length (ds @ [d])) fs' s'"
proof -
  let ?k = "length ds"
  let ?pos = "unat H + total ds"
  from inv obtain f where I: "index s = Mapped n" and Hn: "unat H = 8 * n + 8"
    and fp: "file_pos s = Some ?pos" and F: "fs (store_path s) = Some f"
    unfolding chunk_inv_def by (elim conjE exE)
  note ws = WriteMessage_success [OF I F fp w]
  have kk: "unat idx = ?k"
    using ws(1) chunk_inv_Size(2) [OF inv] by simp
  from tz F have z: "map_get f j = 0" if "?k + 2 \<le> j" "j \<le> n" for j
    using that by (simp add: tail_zero_iff)
  have "map_get (map_set (pwrite f ?pos d) (?k + 2)
            (map_get (pwrite f ?pos d) (?k + 1) + of_nat (length d))) j = 0"
    if "?k + 3 \<le> j" "j \<le> n" for j
  proof -
    have "8 * j + 8 \<le> ?pos" using that(2) Hn by simp
    then have "map_get (pwrite f ?pos d) j = map_get f j"
      by (intro map_get_pwrite_other) simp
    with that z [of j] show ?thesis by (simp add: map_get_map_set)
  qed
  then show ?thesis
    using ws(5,6) kk by (simp add: tail_zero_iff)
qed

lemma writes_tail_zero:
  assumes "chunk_inv H n ds fs s" and "tail_zero n (length ds) fs s"
    and "writes fs s calls = Some (fs', s')"
  shows "tail_zero n (length ds + length calls) fs' s'"
  using assms
proof (induction calls arbitrary: fs s ds)
  case Nil
  then show ?case by simp
next
  case (Cons call calls)
  obtain idx d where call: "call = (idx, d)" by (cases call)
  from Cons.prems(3) obtain fs1 s1 where w: "WriteMessage fs s idx d = Returned (fs1, s1) None"
    and rest: "writes fs1 s1 calls = Some (fs', s')"
    by (auto simp add: call split: run.splits option.splits)
  have inv1: "chunk_inv H n (ds @ [d]) fs1 s1"
    by (rule chunk_inv_step [OF Cons.prems(1) w])
  have tz1: "tail_zero n (length (ds @ [d])) fs1 s1"
    by (rule tail_zero_step [OF Cons.prems(1,2) w])
  from Cons.IH [OF inv1 tz1 rest] show ?case by simp
qed


lemma chunk_inv_capacity_word:
  assumes "chunk_inv H n ds fs s"
  shows "\<exists>f. fs (store_path s) = Some f \<and> map_get f 0 = Capacity s"
  using assms unfolding chunk_inv_def by (elim conjE exE) blast




lemma writes_single:
  "writes fs s [(idx, d)] = Some (fs', s') \<longleftrightarrow> WriteMessage fs s idx d = Returned (fs', s') None"
  by (auto split: run.splits option.splits)



lemma NewFileStorage_fresh:
  assumes "fs0 (fname ident root) = None" and "unat c + 2 < 2 ^ 60"
  shows "NewFileStorage fs0 root ident c =
     Ok (fs0(fname ident root \<mapsto> map_set (map_set (zero_file os_Getpagesize) 0 c) 1 (header_of c)),
         \<lparr>fileId = ident, rootPath = root, file_pos = Some (unat (header_of c)), Capacity = c,
            Size = 0, index = Mapped (unat c + 1)\<rparr>)"
proof -
  from NewFileStorage_succeeds [OF assms(2)] obtain fs1 s1
    where c: "NewFileStorage fs0 root ident c = Ok (fs1, s1)" by blast
  from NewFileStorage_success [OF c] obtain fsA f1 n where
    o: "open_file fs0 (fname ident root) True = Some fsA" and f: "fsA (fname ident root) = Some f1"
    and Hn: "unat (header_of c) = 8 * n + 8"
    and fs1: "fs1 = fsA(fname ident root \<mapsto> map_set (map_set f1 0 c) 1 (header_of c))"
    and s1: "s1 = \<lparr>fileId = ident, rootPath = root, file_pos = Some (unat (header_of c)), Capacity = c,
               Size = 0, index = Mapped n\<rparr>"
    by blast
  from o f assms(1) have "f1 = zero_file os_Getpagesize"
    and "fsA = fs0(fname ident root \<mapsto> zero_file os_Getpagesize)"
    by (auto simp add: open_file_def)
  moreover have "n = unat c + 1"
    using unat_header_nowrap [of c] assms(2) Hn by simp
  ultimately show ?thesis
    by (simp add: c fs1 s1)
qed

lemma switchToReadOnly_fields:
  "index (switchToReadOnly fs s) = Heap []"
  "Size (switchToReadOnly fs s) = Size s"
  "Capacity (switchToReadOnly fs s) = Capacity s"
  "store_path (switchToReadOnly fs s) = store_path s"
  "file_pos (switchToReadOnly fs s) = None"
  by (simp_all add: switchToReadOnly_def go_copy_def go_make_def store_path_def)

lemma SizeOf_after_switch:
  assumes "i < Size s" and "i < Capacity s"
  shows "SizeOf fs' (switchToReadOnly fs s) i = Panic"
  using assms by (simp add: SizeOf_def switchToReadOnly_fields index_get_def not_le)

lemma ReaderAt_after_switch:
  assumes "i < Size s" and "i < Capacity s" and "fs' (store_path s) = Some f"
  shows "ReaderAt fs' (switchToReadOnly fs s) i = Panic"
  using assms by (simp add: ReaderAt_def switchToReadOnly_fields index_get_def not_le)

text \<open>
  C5 fails on the code.  A chunk of capacity 1 with one message of 3 bytes is full;
  \<open>SizeOf(0)\<close> is 3 and \<open>ReaderAt(0)\<close> is a reader at offset 24.  \<open>switchToReadOnly\<close> makes the
  new slice with \<open>make([]uint64, 0, store.Capacity)\<close>, of length 0, so \<open>copy\<close> copies nothing
  and \<open>store.index\<close> is empty afterwards: \<open>SizeOf(0)\<close> and \<open>ReaderAt(0)\<close> panic on the index
  out of range.
\<close>

theorem switchToReadOnly_breaks_reads:
  "case NewFileStorage Map.empty '''' ''id'' 1 of
     Ok (fs1, s1) \<Rightarrow>
       (case WriteMessage fs1 s1 0 [1, 2, 3] of
          Returned (fs, s) None \<Rightarrow>
            IsFull s
            \<and> SizeOf fs s 0 = Ok 3
            \<and> ReaderAt fs s 0 = Ok \<lparr>hpath = ''/tmp/id'', hpos = 24\<rparr>
            \<and> SizeOf fs (switchToReadOnly fs s) 0 = Panic
            \<and> ReaderAt fs (switchToReadOnly fs s) 0 = Panic
        | Returned (fs, s) (Some e) \<Rightarrow> False
        | Panicked \<Rightarrow> False)
   | Err e \<Rightarrow> False
   | Panic \<Rightarrow> False"
proof -
  have z: "zip (map of_nat [0 ..< length [[1, 2, 3 :: byte]]]) [[1, 2, 3]] = [(0 :: u64, [1, 2, 3 :: byte])]"
    by (simp add: upt_rec)
  from fresh_writes_succeed [of 1 "[[1, 2, 3]]" Map.empty "''''" "''id''"]
  obtain fs1 s1 fs s where c: "NewFileStorage Map.empty '''' ''id'' 1 = Ok (fs1, s1)"
    and w: "writes fs1 s1 [(0, [1, 2, 3])] = Some (fs, s)"
    unfolding z by (auto simp add: total_def max_offset_def)
  from w have w1: "WriteMessage fs1 s1 0 [1, 2, 3] = Returned (fs, s) None"
    by (simp only: writes_single)
  have inv0: "chunk_inv (header_of 1) (unat (1 :: u64) + 1) [] fs1 s1"
    by (rule chunk_inv_init_nowrap [OF c]) simp
  have inv: "chunk_inv (header_of 1) (unat (1 :: u64) + 1) ([] @ [[1, 2, 3]]) fs s"
    by (rule chunk_inv_step [OF inv0 w1])
  have h: "header_of 1 = 24" by (simp add: header_of_def nSize_def)
  have P: "store_path s = ''/tmp/id''"
    using writes_frame [OF inv0 w] chunk_inv_init(3) [OF c]
    by (simp add: fname_def filepath_Join_def os_TempDir_def)
  have cap: "Capacity s = 1"
    using writes_frame [OF inv0 w] chunk_inv_init(2) [OF c] by simp
  have sz: "Size s = 1" using chunk_inv_Size(1) [OF inv] by simp
  have 1: "IsFull s" by (simp add: IsFull_def sz cap)
  have 2: "SizeOf fs s 0 = Ok 3"
    using chunk_inv_SizeOf [OF inv, of 0] by simp
  have 3: "ReaderAt fs s 0 = Ok \<lparr>hpath = ''/tmp/id'', hpos = 24\<rparr>"
    using chunk_inv_ReaderAt [OF inv, of 0] by (simp add: P h)
  have 4: "SizeOf fs (switchToReadOnly fs s) 0 = Panic"
    by (rule SizeOf_after_switch) (simp_all add: sz cap)
  obtain f where "fs (store_path s) = Some f"
    using chunk_inv_capacity_word [OF inv] by blast
  then have 5: "ReaderAt fs (switchToReadOnly fs s) 0 = Panic"
    by (rule ReaderAt_after_switch [rotated 2]) (simp_all add: sz cap)
  show ?thesis
    by (simp only: c w1 res.case run.case option.case prod.case) (intro conjI 1 2 3 4 5)
qed

text \<open>
  What \<open>Open\<close> makes of a chunk that \<open>NewFileStorage\<close> created on a path without a file
  and that was closed after some writes.  The scan of \<open>Open\<close> passes over the words of
  the header that are not zero; it stops at word \<open>k + 2\<close> when \<open>k\<close> messages are stored
  and the table has room left.
\<close>

lemma scan_index_skip:
  assumes "\<forall>j. i \<le> j \<and> j < m \<longrightarrow> map_get f j \<noteq> 0" and "i \<le> m" and "m \<le> n"
  shows "scan_index f i n sz = scan_index f m n sz"
  using assms
proof (induction "m - i" arbitrary: i)
  case 0
  then show ?case by simp
next
  case (Suc d)
  then have lt: "i < m" and nz: "map_get f i \<noteq> 0" by simp_all
  have "scan_index f i n sz = scan_index f (i + 1) n sz"
    using lt Suc.prems(3) nz by (subst scan_index.simps) simp
  also have "\<dots> = scan_index f m n sz"
    using Suc.hyps(2) Suc.prems lt by (intro Suc.hyps(1)) simp_all
  finally show ?case .
qed

lemma scan_index_found:
  assumes "\<forall>j < m. map_get f j \<noteq> 0" and "map_get f m = 0" and "m < n"
  shows "scan_index f 0 n sz = word_of_int (int m - 2)"
proof -
  have "scan_index f 0 n sz = scan_index f m n sz"
    using assms(1,3) by (intro scan_index_skip) simp_all
  also have "\<dots> = word_of_int (int m - 2)"
    using assms(2,3) by (subst scan_index.simps) simp
  finally show ?thesis .
qed

lemma scan_index_none:
  assumes "\<forall>j < n. map_get f j \<noteq> 0"
  shows "scan_index f 0 n sz = sz"
proof -
  have "scan_index f 0 n sz = scan_index f n n sz"
    using assms by (intro scan_index_skip) simp_all
  also have "\<dots> = sz"
    by (subst scan_index.simps) simp
  finally show ?thesis .
qed

lemma Open_after_writes:
  assumes inv: "chunk_inv (header_of c) n ds fs s" and cap: "Capacity s = c"
    and nc: "n = unat c + 1" and c0: "c \<noteq> 0"
    and tz: "tail_zero n (length ds) fs s"
  shows "Open (Close fs s) (rootPath s) (fileId s) =
     Ok (fs, if Size s = 0 \<or> Size s = Capacity s
             then s\<lparr>file_pos := Some 0, Size := Capacity s\<rparr> else s)"
proof -
  let ?H = "header_of c"
  let ?k = "length ds"
  from inv obtain f where I: "index s = Mapped n"
    and Hn: "unat ?H = 8 * n + 8"
    and kn: "?k < n"
    and Sz: "Size s = of_nat ?k"
    and kc: "?k \<le> unat (Capacity s)"
    and fp: "file_pos s = Some (unat ?H + total ds)"
    and mo: "unat ?H + total ds \<le> max_offset"
    and F: "fs (store_path s) = Some f"
    and fpos: "0 < flen f"
    and w0: "map_get f 0 = Capacity s"
    and offs: "\<forall>i \<le> ?k. map_get f (i + 1) = ?H + of_nat (total (take i ds))"
    unfolding chunk_inv_def by (elim conjE exE)
  from tz F have z: "map_get f j = 0" if "?k + 2 \<le> j" "j \<le> n" for j
    using that by (simp add: tail_zero_iff)
  have uk: "unat (Size s) = ?k" by (rule chunk_inv_Size(2) [OF inv])
  have H63: "unat ?H < 2 ^ 63"
    using mo max_offset_lt by linarith
  have H0: "?H \<noteq> 0"
    using Hn by (auto simp flip: unat_eq_zero)
  have mw: "mapped_words f ?H = Some (n + 1)"
    using mapped_words_ok [OF H63 H0, of f] Hn by simp
  have mw8: "mapped_words f nSize = Some 1"
    by (simp add: mapped_words_def nSize_def)
  have o: "open_file fs (store_path s) False = Some fs"
    using F fpos by (simp add: open_file_def)
  have nz: "map_get f j \<noteq> 0" if "j < ?k + 2" for j
  proof (cases j)
    case 0
    then show ?thesis using w0 cap c0 by simp
  next
    case (Suc i)
    then have i: "i \<le> ?k" using that by simp
    have "unat (?H + of_nat (total (take i ds))) = unat ?H + total (take i ds)"
      by (rule chunk_inv_offset_unat [OF inv i])
    then have "unat (map_get f j) \<noteq> 0"
      using offs i Suc Hn by simp
    then show ?thesis by (auto simp flip: unat_eq_zero)
  qed
  have sc: "scan_index f 0 (n + 1) 0 = (if ?k + 2 \<le> n then Size s else 0)"
  proof (cases "?k + 2 \<le> n")
    case True
    have "scan_index f 0 (n + 1) 0 = word_of_int (int (?k + 2) - 2)"
      using nz z [of "?k + 2"] True by (intro scan_index_found) simp_all
    then show ?thesis using True Sz by simp
  next
    case False
    then have "n = ?k + 1" using kn by simp
    then have "scan_index f 0 (n + 1) 0 = 0"
      using nz by (intro scan_index_none) simp
    then show ?thesis using False by simp
  qed
  have full: "Size s = Capacity s \<longleftrightarrow> \<not> ?k + 2 \<le> n"
  proof -
    have "Size s = Capacity s \<longleftrightarrow> unat (Size s) = unat (Capacity s)"
      by (simp add: word_unat_eq_iff)
    then show ?thesis using uk cap nc kn by auto
  qed
  have ig: "index_get fs (s\<lparr>file_pos := a\<rparr>) ?k = Some (?H + of_nat (total ds))" for a
    using I F kn offs by (simp add: index_get_def)
  have un: "unat (?H + of_nat (total ds)) = unat ?H + total ds"
    using chunk_inv_offset_unat [OF inv, of ?k] by simp
  have sg: "\<not> sint (?H + of_nat (total ds)) < 0"
    by (rule sint_nonneg64) (use un mo max_offset_lt in linarith)
  have st: "\<lparr>fileId = fileId s, rootPath = rootPath s, file_pos = a, Capacity = Capacity s,
      Size = b, index = index s\<rparr> = s\<lparr>file_pos := a, Size := b\<rparr>" for a b
    by (cases s) simp
  show ?thesis
  proof (cases "Size s = 0 \<or> Size s = Capacity s")
    case False
    then have T: "?k + 2 \<le> n" and S0: "Size s \<noteq> 0" using full by simp_all
    have "s\<lparr>file_pos := file_pos s, Size := Size s\<rparr> = s" by simp
    then show ?thesis
      using o F mw mw8 sc T S0 False ig [of "Some 0"] sg un fp w0 cap I st [of "file_pos s" "Size s"]
      by (simp add: Open_def Close_def Let_def store_path_def header_of_def [symmetric] uk
          index_get_def)
  next
    case True
    then have "scan_index f 0 (n + 1) 0 = 0"
      using sc full by auto
    then show ?thesis
      using o F mw mw8 True w0 cap I st [of "Some 0" "Capacity s"]
      by (simp add: Open_def Close_def Let_def store_path_def header_of_def [symmetric])
  qed
qed

lemma WriteMessage_ids:
  assumes "WriteMessage fs s idx d = Returned (fs', s') e"
  shows "fileId s' = fileId s \<and> rootPath s' = rootPath s"
  using assms
  by (auto simp add: WriteMessage_def file_Write_def index_set_def
      split: if_splits option.splits slice.splits)

lemma writes_ids:
  assumes "writes fs s calls = Some (fs', s')"
  shows "fileId s' = fileId s \<and> rootPath s' = rootPath s"
  using assms
proof (induction calls arbitrary: fs s)
  case Nil
  then show ?case by simp
next
  case (Cons call calls)
  obtain idx d where call: "call = (idx, d)" by (cases call)
  from Cons.prems obtain fs1 s1 where w: "WriteMessage fs s idx d = Returned (fs1, s1) None"
    and rest: "writes fs1 s1 calls = Some (fs', s')"
    by (auto simp add: call split: run.splits option.splits)
  from Cons.IH [OF rest] WriteMessage_ids [OF w] show ?case by simp
qed

lemma index_get_file_pos:
  "index_get fs (s\<lparr>file_pos := a\<rparr>) i = index_get fs s i"
  by (cases "index s") (simp_all add: index_get_def)

lemma reads_file_pos:
  "ReaderAt fs (s\<lparr>file_pos := a\<rparr>) i = ReaderAt fs s i"
  "SizeOf fs (s\<lparr>file_pos := a\<rparr>) i = SizeOf fs s i"
  by (simp_all add: ReaderAt_def SizeOf_def index_get_file_pos split: option.splits)

lemma fresh_chunk_reopened:
  assumes fresh: "fs0 (fname ident root) = None"
    and c: "NewFileStorage fs0 root ident c = Ok (fs1, s1)"
    and nw: "unat c + 2 < 2 ^ 61" and c0: "c \<noteq> 0"
    and w: "writes fs1 s1 calls = Some (fs, s)"
  shows "Open (Close fs s) root ident =
     Ok (fs, if Size s = 0 \<or> Size s = Capacity s
             then s\<lparr>file_pos := Some 0, Size := Capacity s\<rparr> else s)"
    and "Capacity s = c" and "unat (Size s) = length calls"
proof -
  have inv0: "chunk_inv (header_of c) (unat c + 1) [] fs1 s1"
    by (rule chunk_inv_init_nowrap [OF c nw])
  have cap0: "Capacity s1 = c" by (rule chunk_inv_init(2) [OF c])
  have tz0: "tail_zero (unat c + 1) (length ([] :: byte list list)) fs1 s1"
    using tail_zero_init [OF c fresh] by simp
  have inv: "chunk_inv (header_of c) (unat c + 1) ([] @ map snd calls) fs s"
    by (rule writes_inv [OF inv0 w])
  have tz: "tail_zero (unat c + 1) (length (map snd calls)) fs s"
    using writes_tail_zero [OF inv0 tz0 w] by simp
  show cap: "Capacity s = c"
    using writes_frame [OF inv0 w] cap0 by simp
  have ids: "fileId s = ident" "rootPath s = root"
    using writes_ids [OF w] NewFileStorage_success [OF c] by auto
  have inv': "chunk_inv (header_of c) (unat c + 1) (map snd calls) fs s"
    using inv by simp
  show "unat (Size s) = length calls"
    using chunk_inv_Size(2) [OF inv'] by simp
  have "Open (Close fs s) (rootPath s) (fileId s) =
     Ok (fs, if Size s = 0 \<or> Size s = Capacity s
             then s\<lparr>file_pos := Some 0, Size := Capacity s\<rparr> else s)"
    by (rule Open_after_writes [OF inv' cap _ c0 tz]) simp
  then show "Open (Close fs s) root ident =
     Ok (fs, if Size s = 0 \<or> Size s = Capacity s
             then s\<lparr>file_pos := Some 0, Size := Capacity s\<rparr> else s)"
    using ids by simp
qed

lemma chunk_round_trip:
  assumes fresh: "fs0 (fname ident root) = None"
    and c: "NewFileStorage fs0 root ident c = Ok (fs1, s1)"
    and nw: "unat c + 2 < 2 ^ 61"
    and w: "writes fs1 s1 calls = Some (fs, s)"
    and ne: "calls \<noteq> []"
  shows "\<exists>s'. Open (Close fs s) root ident = Ok (fs, s') \<and> Capacity s' = c
     \<and> Size s' = Size s \<and> unat (Size s') = length calls
     \<and> (\<forall>i. ReaderAt fs s' i = ReaderAt fs s i \<and> SizeOf fs s' i = SizeOf fs s i)"
proof -
  have inv0: "chunk_inv (header_of c) (unat c + 1) [] fs1 s1"
    by (rule chunk_inv_init_nowrap [OF c nw])
  have inv: "chunk_inv (header_of c) (unat c + 1) ([] @ map snd calls) fs s"
    by (rule writes_inv [OF inv0 w])
  have "length calls \<le> unat (Capacity s)"
    using chunk_inv_Size(3) [OF inv] by simp
  with ne have "unat (Capacity s) \<noteq> 0" by (cases calls) auto
  then have c0: "c \<noteq> 0"
    using writes_frame [OF inv0 w] chunk_inv_init(2) [OF c] by auto
  note r = fresh_chunk_reopened [OF fresh c nw c0 w]
  have "unat (Size s) \<noteq> 0" using r(3) ne by simp
  then have S0: "Size s \<noteq> 0" by auto
  show ?thesis
  proof (cases "Size s = Capacity s")
    case True
    then have "s\<lparr>file_pos := Some 0, Size := Capacity s\<rparr> = s\<lparr>file_pos := Some 0\<rparr>"
      by (cases s) simp
    with r(1) True have "Open (Close fs s) root ident = Ok (fs, s\<lparr>file_pos := Some 0\<rparr>)"
      by simp
    with r(2,3) show ?thesis by (simp add: reads_file_pos)
  next
    case False
    with r S0 show ?thesis by simp
  qed
qed

lemma empty_chunk_reopened_full:
  assumes fresh: "fs0 (fname ident root) = None"
    and c: "NewFileStorage fs0 root ident c = Ok (fs1, s1)"
    and nw: "unat c + 2 < 2 ^ 61" and c0: "c \<noteq> 0"
  shows "\<exists>s'. Open (Close fs1 s1) root ident = Ok (fs1, s') \<and> Size s1 = 0 \<and> Size s' = c"
proof -
  have w: "writes fs1 s1 [] = Some (fs1, s1)" by simp
  note r = fresh_chunk_reopened [OF fresh c nw c0 w]
  have "Size s1 = 0" using r(3) by (simp add: unat_eq_zero)
  with r(1,2) show ?thesis by simp
qed

lemma tmp_id: "fname ''id'' '''' = ''/tmp/id''"
  by (simp add: fname_def filepath_Join_def os_TempDir_def)

text \<open>
  A chunk of capacity 0: the scan of \<open>Open\<close> takes the capacity word for the first zero,
  \<open>uint64(0 - 2)\<close> becomes the size, and \<open>store.index[store.Size]\<close> is out of range.
\<close>

lemma Open_capacity_zero_panics:
  "case NewFileStorage Map.empty '''' ''id'' 0 of
     Ok (fs, s) \<Rightarrow> Open (Close fs s) '''' ''id'' = Panic
   | Err e \<Rightarrow> False
   | Panic \<Rightarrow> False"
proof -
  define f where "f = map_set (map_set (zero_file os_Getpagesize) 0 0) 1 (header_of 0)"
  have h: "header_of 0 = 16" by (simp add: header_of_def nSize_def)
  have c: "NewFileStorage Map.empty '''' ''id'' 0 =
     Ok (Map.empty(''/tmp/id'' \<mapsto> f),
         \<lparr>fileId = ''id'', rootPath = '''', file_pos = Some 16, Capacity = 0,
            Size = 0, index = Mapped 1\<rparr>)"
    using NewFileStorage_fresh [of Map.empty "''id''" "''''" 0] by (simp add: tmp_id h f_def)
  have fl: "flen f = 4096"
    by (simp add: f_def flen_map_set flen_zero_file os_Getpagesize_def)
  have w0: "map_get f 0 = 0"
    by (simp add: f_def map_get_map_set map_get_zero_file h)
  have mw8: "mapped_words f 8 = Some 1"
    by (simp add: mapped_words_def nSize_def fl)
  have mw: "mapped_words f 16 = Some 2"
    by (simp add: mapped_words_def nSize_def fl)
  have sc: "scan_index f 0 2 0 = - 2"
    by (subst scan_index.simps) (simp add: w0)
  have u: "unat (- 2 :: u64) = 18446744073709551614"
    by simp
  have o: "Open (Map.empty(''/tmp/id'' \<mapsto> f)) '''' ''id'' = Panic"
    by (simp add: Open_def store_path_def tmp_id open_file_def fl nSize_def mw8 w0 mw sc
        index_get_def u)
  show ?thesis
    by (simp add: c Close_def o)
qed

text \<open>
  C4 fails on the code for a chunk without messages.  \<open>NewFileStorage\<close> with capacity 10
  and no write, then \<open>Close\<close>, then \<open>Open\<close>: the scan finds the first zero at word 2 of the
  header and sets \<open>Size\<close> to 0, and the test \<open>store.Size == 0\<close> that stands for "no zero was
  found" then sets \<open>Size\<close> to the capacity.  The chunk comes back with \<open>Size\<close> 10, not 0.
  Lemma \<open>empty_chunk_reopened_full\<close> shows the same for every capacity from 1 on, and
  lemma \<open>chunk_round_trip\<close> that a chunk with at least one message comes back with its
  capacity, its size and its messages.
\<close>

theorem Open_empty_chunk_is_full:
  "case NewFileStorage Map.empty '''' ''id'' 10 of
     Ok (fs, s) \<Rightarrow>
       Size s = 0 \<and> Capacity s = 10
       \<and> (case Open (Close fs s) '''' ''id'' of
            Ok (fs', s') \<Rightarrow> Capacity s' = 10 \<and> Size s' = 10
          | Err e \<Rightarrow> False
          | Panic \<Rightarrow> False)
   | Err e \<Rightarrow> False
   | Panic \<Rightarrow> False"
proof -
  define f where "f = map_set (map_set (zero_file os_Getpagesize) 0 10) 1 (header_of 10)"
  have h: "header_of 10 = 96" by (simp add: header_of_def nSize_def)
  have c: "NewFileStorage Map.empty '''' ''id'' 10 =
     Ok (Map.empty(''/tmp/id'' \<mapsto> f),
         \<lparr>fileId = ''id'', rootPath = '''', file_pos = Some 96, Capacity = 10,
            Size = 0, index = Mapped 11\<rparr>)"
    using NewFileStorage_fresh [of Map.empty "''id''" "''''" 10] by (simp add: tmp_id h f_def)
  have fl: "flen f = 4096"
    by (simp add: f_def flen_map_set flen_zero_file os_Getpagesize_def)
  have w0: "map_get f 0 = 10" and w1: "map_get f (Suc 0) = 96"
    and w2: "map_get f (Suc (Suc 0)) = 0"
    by (simp_all add: f_def map_get_map_set map_get_zero_file h)
  have mw8: "mapped_words f 8 = Some 1"
    by (simp add: mapped_words_def nSize_def fl)
  have mw: "mapped_words f 96 = Some 12"
    by (simp add: mapped_words_def nSize_def fl)
  have "scan_index f (Suc (Suc 0)) 12 0 = 0"
    by (subst scan_index.simps) (simp add: w2)
  then have "scan_index f (Suc 0) 12 0 = 0"
    by (subst scan_index.simps) (simp add: w1)
  then have sc: "scan_index f 0 12 0 = 0"
    by (subst scan_index.simps) (simp add: w0)
  have o: "Open (Map.empty(''/tmp/id'' \<mapsto> f)) '''' ''id'' =
     Ok (Map.empty(''/tmp/id'' \<mapsto> f),
         \<lparr>fileId = ''id'', rootPath = '''', file_pos = Some 0, Capacity = 10,
            Size = 10, index = Mapped 11\<rparr>)"
    by (simp add: Open_def store_path_def tmp_id open_file_def fl nSize_def mw8 w0 mw sc)
  show ?thesis
    by (simp add: c Close_def o)
qed

lemma switchToReadOnly_eq:
  "switchToReadOnly fs s = s\<lparr>index := Heap [], file_pos := None\<rparr>"
  by (simp add: switchToReadOnly_def go_copy_def go_make_def)

lemma decimal_0: "decimal 0 = ''0''"
  by code_simp

lemma decimal_1: "decimal (Suc 0) = ''1''"
  by code_simp

lemma byte_at_map_set:
  "byte_at (map_set f j w) k =
     (if 8 * j \<le> k \<and> k < 8 * j + 8 then le_bytes w ! (k - 8 * j) else byte_at f k)"
  by (simp add: map_set_def byte_at_pwrite length_le_bytes)

text \<open>
  What holds of the track functions in general: \<open>Track.ReaderAt\<close> never returns an error
  value, and past the written messages it returns a reader without a sub-reader;
  \<open>Read\<close> returns \<open>BufferTooSmall\<close> or one whole message once \<open>SizeOf\<close> has returned the
  size, and panics when \<open>SizeOf\<close> does; \<open>OpenTrack\<close> starts the writer at
  \<open>len(stores) * CHUNK_SIZE + Size\<close> of the last chunk.
\<close>

lemma Track_ReaderAt_no_error:
  "Track_ReaderAt CHUNK_SIZE fs t offset \<noteq> Err e"
  by (simp add: Track_ReaderAt_def Let_def split: res.splits)

lemma Track_ReaderAt_beyond:
  assumes "CHUNK_SIZE \<noteq> 0"
    and "\<not> (offset div CHUNK_SIZE < of_nat (length (stores t))
          \<and> offset mod CHUNK_SIZE < Size (stores t ! unat (offset div CHUNK_SIZE)))"
  shows "Track_ReaderAt CHUNK_SIZE fs t offset = Ok \<lparr>Offset = offset, currentSub = None\<rparr>"
  using assms by (auto simp add: Track_ReaderAt_def Let_def)

lemma Read_BufferTooSmall:
  assumes "alive t" and "CHUNK_SIZE \<noteq> 0" and "currentSub sr \<noteq> None"
    and "Offset sr div CHUNK_SIZE < of_nat (length (stores t))"
    and "Offset sr mod CHUNK_SIZE < Size (stores t ! unat (Offset sr div CHUNK_SIZE))"
    and "SizeOf fs (stores t ! unat (Offset sr div CHUNK_SIZE)) (Offset sr mod CHUNK_SIZE) = Ok m"
    and "of_nat (length p) < m"
  shows "StorageReader_Read CHUNK_SIZE fs t sr p = ReadReturns 0 (Some BufferTooSmall) p sr"
  using assms by (simp add: StorageReader_Read_def Let_def not_le)

lemma Read_whole_message:
  assumes "alive t" and "CHUNK_SIZE \<noteq> 0" and "currentSub sr = Some h"
    and "Offset sr div CHUNK_SIZE < of_nat (length (stores t))"
    and "Offset sr mod CHUNK_SIZE < Size (stores t ! unat (Offset sr div CHUNK_SIZE))"
    and "SizeOf fs (stores t ! unat (Offset sr div CHUNK_SIZE)) (Offset sr mod CHUNK_SIZE) = Ok m"
    and "m \<le> of_nat (length p)"
    and "handle_Read fs h (unat m) = Ok (bs, h')"
    and "handleRollover CHUNK_SIZE fs t (sr\<lparr>currentSub := Some h', Offset := Offset sr + 1\<rparr>) = Ok sr2"
  shows "StorageReader_Read CHUNK_SIZE fs t sr p
     = ReadReturns (sint m) None (bs @ drop (length bs) p) sr2"
  using assms by (simp add: StorageReader_Read_def Let_def not_le)

lemma Read_panics_when_SizeOf_panics:
  assumes "alive t" and "CHUNK_SIZE \<noteq> 0" and "currentSub sr \<noteq> None"
    and "Offset sr div CHUNK_SIZE < of_nat (length (stores t))"
    and "Offset sr mod CHUNK_SIZE < Size (stores t ! unat (Offset sr div CHUNK_SIZE))"
    and "SizeOf fs (stores t ! unat (Offset sr div CHUNK_SIZE)) (Offset sr mod CHUNK_SIZE) = Panic"
  shows "StorageReader_Read CHUNK_SIZE fs t sr p = ReadPanics"
  using assms by (simp add: StorageReader_Read_def Let_def not_le)

lemma OpenTrack_msgId:
  assumes "load_stores fs root ident 0 [] = Some (Ok (fs1, ss))"
  shows "\<exists>t. OpenTrack CHUNK_SIZE fs root ident = Some (Ok (fs1, t)) \<and> stores t = ss
     \<and> msgId t = (if ss = [] then 0 else of_nat (length ss) * CHUNK_SIZE + Size (last ss))"
  using assms by (simp add: OpenTrack_def startWriter_def Let_def last_conv_nth)

lemmas track_eval = NewTrack_def startWriter_def Track_WriteMessage_def writer_run_def
  writer_receive_def storeId_of_def NewFileStorage_def init_def open_file_def store_path_def
  fname_def filepath_Join_def os_TempDir_def mapped_words_def nSize_def index_set_def index_get_def
  WriteMessage_def file_Write_def max_offset_def os_Getpagesize_def flen_map_set flen_zero_file
  flen_pwrite map_get_map_set map_get_zero_file map_get_pwrite_other decimal_0 decimal_1
  switchToReadOnly_eq Track_ReaderAt_def ReaderAt_def SizeOf_def StorageReader_Read_def
  handleRollover_def handle_Read_def pread_def byte_at_pwrite byte_at_map_set
  Track_Close_def WaitForShutdown_def OpenTrack_def load_stores.simps Open_def scan_index.simps
  exists_file_def Let_def word_le_nat_alt word_less_nat_alt

text \<open>
  C10 fails on the code.  With \<open>CHUNK_SIZE = 2\<close>, after three messages the writer has rolled
  over: chunk \<open>id0\<close> is full and was switched to read-only, which left its \<open>index\<close> empty,
  and chunk \<open>id1\<close> holds one message.  \<open>ReaderAt(0)\<close> finds message 0 written and calls
  \<open>stores[0].ReaderAt(0)\<close>, which panics on \<open>store.index[0]\<close>: no reader is returned.
  \<open>ReaderAt(2)\<close> and \<open>ReaderAt(100)\<close>, which do not touch the first chunk, return a reader.
\<close>

theorem Track_ReaderAt_panics_after_rollover:
  "case writer_run 2 Map.empty (send_all (NewTrack '''' ''id'') [[48], [49], [50]]) of
     Ok (fs, t) \<Rightarrow>
       map Size (stores t) = [2, 1]
       \<and> Track_ReaderAt 2 fs t 0 = Panic
       \<and> Track_ReaderAt 2 fs t 2
           = Ok \<lparr>Offset = 2, currentSub = Some \<lparr>hpath = ''/tmp/id1'', hpos = 32\<rparr>\<rparr>
       \<and> Track_ReaderAt 2 fs t 100 = Ok \<lparr>Offset = 100, currentSub = None\<rparr>
   | Err e \<Rightarrow> False
   | Panic \<Rightarrow> False"
  by (simp add: track_eval)

text \<open>
  C9 fails on the code.  With \<open>CHUNK_SIZE = 2\<close>, a reader is taken at offset 0 when one
  message is written; \<open>Read\<close> into a buffer of 4 bytes returns that message, and into an
  empty buffer it returns \<open>BufferTooSmall\<close> with the offset unchanged.  After two more
  messages the writer has rolled over and switched chunk \<open>id0\<close> to read-only, which left its
  \<open>index\<close> empty.  Message 0 is still available to the same reader, but now \<open>Read\<close> panics
  in \<open>SizeOf\<close> on \<open>store.index[1]\<close>, whatever the buffer.
\<close>

theorem Read_panics_after_rollover:
  "case writer_run 2 Map.empty (send_all (NewTrack '''' ''id'') [[48]]) of
     Ok (fs1, t1) \<Rightarrow>
       (case Track_ReaderAt 2 fs1 t1 0 of
          Ok r \<Rightarrow>
            StorageReader_Read 2 fs1 t1 r [0, 0, 0, 0]
              = ReadReturns 1 None [48, 0, 0, 0]
                  \<lparr>Offset = 1, currentSub = Some \<lparr>hpath = ''/tmp/id0'', hpos = 33\<rparr>\<rparr>
            \<and> StorageReader_Read 2 fs1 t1 r [] = ReadReturns 0 (Some BufferTooSmall) [] r
            \<and> (case writer_run 2 fs1 (send_all t1 [[49], [50]]) of
                 Ok (fs2, t2) \<Rightarrow>
                   map Size (stores t2) = [2, 1]
                   \<and> StorageReader_Read 2 fs2 t2 r [0, 0, 0, 0] = ReadPanics
                   \<and> StorageReader_Read 2 fs2 t2 r [] = ReadPanics
               | Err e \<Rightarrow> False
               | Panic \<Rightarrow> False)
        | Err e \<Rightarrow> False
        | Panic \<Rightarrow> False)
   | Err e \<Rightarrow> False
   | Panic \<Rightarrow> False"
  by (simp add: track_eval)

text \<open>
  C3 fails on the code.  With \<open>CHUNK_SIZE = 500000\<close>, a new track receives two messages, is
  closed and shut down, and is opened again.  \<open>OpenTrack\<close> finds \<open>n = 1\<close> chunk file with
  \<open>Size\<close> 2 and starts the writer at \<open>uint64(len(t.stores))*CHUNK_SIZE + Size\<close>, which is
  500002; the claim's \<open>(n-1)*CHUNK_SIZE + Size\<close> is 2, the number of messages stored.
\<close>

theorem OpenTrack_start_ordinal:
  "case Track_Close (send_all (NewTrack '''' ''id'') [[48], [49]]) of
     Ok t1 \<Rightarrow>
       (case WaitForShutdown 500000 Map.empty t1 of
          Some (Ok (fs2, t2)) \<Rightarrow>
            \<not> alive t2 \<and> map Size (stores t2) = [2] \<and> msgId t2 = 2
            \<and> (case OpenTrack 500000 fs2 '''' ''id'' of
                 Some (Ok (fs3, t3)) \<Rightarrow>
                   map Size (stores t3) = [2] \<and> msgId t3 = 500002
               | Some (Err e) \<Rightarrow> False
               | Some Panic \<Rightarrow> False
               | None \<Rightarrow> False)
        | Some (Err e) \<Rightarrow> False
        | Some Panic \<Rightarrow> False
        | None \<Rightarrow> False)
   | Err e \<Rightarrow> False
   | Panic \<Rightarrow> False"
  by (simp add: track_eval)

text \<open>
  C2 fails on the code in its last part.  The same track, opened again, gives both messages
  back in order to a reader at offset 0.  But its writer starts at ordinal 500002 and not
  at 2: for the next message it computes chunk 1, switches chunk 0 to read-only, creates
  the chunk file \<open>id1\<close> and calls \<open>WriteMessage(2, msg)\<close> on the empty chunk, which answers
  "Out of order message", and \<open>utils.Check\<close> panics.  The message gets no ordinal.
\<close>

theorem OpenTrack_then_write_panics:
  "case Track_Close (send_all (NewTrack '''' ''id'') [[48], [49]]) of
     Ok t1 \<Rightarrow>
       (case WaitForShutdown 500000 Map.empty t1 of
          Some (Ok (fs2, t2)) \<Rightarrow>
            (case OpenTrack 500000 fs2 '''' ''id'' of
               Some (Ok (fs3, t3)) \<Rightarrow>
                 (case Track_ReaderAt 500000 fs3 t3 0 of
                    Ok r \<Rightarrow>
                      (case StorageReader_Read 500000 fs3 t3 r [0, 0, 0, 0] of
                         ReadReturns n e buf r1 \<Rightarrow>
                           n = 1 \<and> e = None \<and> buf = [48, 0, 0, 0]
                           \<and> StorageReader_Read 500000 fs3 t3 r1 [0, 0, 0, 0]
                               = ReadReturns 1 None [49, 0, 0, 0]
                                   \<lparr>Offset = 2,
                                      currentSub = Some \<lparr>hpath = ''/tmp/id0'', hpos = 4000018\<rparr>\<rparr>
                       | ReadWaits \<Rightarrow> False
                       | ReadPanics \<Rightarrow> False)
                  | Err e \<Rightarrow> False
                  | Panic \<Rightarrow> False)
                 \<and> msgId t3 = 500002
                 \<and> writer_run 500000 fs3 (send_all t3 [[50]]) = Panic
             | Some (Err e) \<Rightarrow> False
             | Some Panic \<Rightarrow> False
             | None \<Rightarrow> False)
        | Some (Err e) \<Rightarrow> False
        | Some Panic \<Rightarrow> False
        | None \<Rightarrow> False)
   | Err e \<Rightarrow> False
   | Panic \<Rightarrow> False"
  by (simp add: track_eval)

end
